theory Spec2Isabelle
  imports Main "HOL-Library.Word"
begin

unbundle bit_operations_syntax

section \<open>Data model of the debug-info codec (lib/BCGen/HBC/DebugInfo.cpp)\<close>

text \<open>
  Bytes are \<open>uint8_t\<close>, identifiers and source coordinates are \<open>uint32_t\<close>. Sizes of
  buffers and offsets into them are natural numbers; wherever the code stores one in a
  \<open>uint32_t\<close> (or \<open>unsigned\<close>) the truncation \<open>mod 2 ^ 32\<close> is written out. Values of
  type \<open>int64_t\<close> are integers; the places where the code narrows them are written as
  \<open>word_of_int\<close>.
\<close>

type_synonym u8 = "8 word"
type_synonym u32 = "32 word"

text \<open>
  Failures of the code are values: an \<open>assert\<close> that does not hold, and a read that runs
  past the end of the buffer.
\<close>

datatype error = AssertionFailure | ReadPastEnd

definition bindE :: "error + 'a \<Rightarrow> ('a \<Rightarrow> error + 'b) \<Rightarrow> error + 'b" where
  "bindE m f = (case m of Inl e \<Rightarrow> Inl e | Inr x \<Rightarrow> f x)"

text \<open>
  Modelled from the spec: the struct \<open>DebugFileRegion\<close> of
  hermes/BCGen/HBC/DebugInfo.h, which is not among the sources. Section 3: the fields
  \<open>fromAddress\<close>, \<open>filenameId\<close> and \<open>sourceMappingUrlId\<close>, each 32-bit unsigned;
  \<open>fromAddress\<close> is a byte offset into the sources blob.
\<close>

record DebugFileRegion =
  fromAddress :: nat
  filenameId :: u32
  sourceMappingUrlId :: u32

text \<open>
  Modelled from the spec: the struct \<open>DebugSourceLocation\<close> of DebugInfo.h. Section 3
  names the fields; they are 32-bit unsigned, as DebugInfo.cpp uses them
  (\<open>uint32_t line = loc->line\<close>, the comparison of \<open>loc->address\<close> with a
  \<open>uint32_t\<close>, the assignment of a \<open>uint32_t\<close> to \<open>filenameId\<close>).
\<close>

record DebugSourceLocation =
  address :: u32
  filenameId :: u32
  sourceMappingUrlId :: u32
  line :: u32
  column :: u32
  statement :: u32

text \<open>
  Modelled from the spec: the default-constructed \<open>DebugSourceLocation\<close>, which is the
  deserializer's \<open>current_\<close> before the header is read. Section 4.6: the header
  location has address 0 and statement 0; the other fields are 0 as well until they are
  assigned.
\<close>

definition defaultLocation :: DebugSourceLocation where
  "defaultLocation =
     \<lparr>address = 0, filenameId = 0, sourceMappingUrlId = 0, line = 0, column = 0, statement = 0\<rparr>"

text \<open>
  Modelled from the spec: \<open>DebugSearchResult\<close> of DebugInfo.h. Section 4.7: function
  index, address, line and column, the four arguments \<open>getAddressForLocation\<close> gives
  its constructor.
\<close>

datatype DebugSearchResult = DebugSearchResult u32 u32 u32 u32

section \<open>Signed LEB128\<close>

text \<open>
  Modelled from the spec: \<open>appendSignedLEB128\<close> and \<open>readSignedLEB128\<close> of
  hermes/Support/LEB128.h, which is not among the sources. Section 4.1: seven payload bits
  per byte, the high bit says that more bytes follow, the final byte is sign-extended from
  bit 6; decoding fails if the buffer ends before the terminating byte. The value read is
  an \<open>int64_t\<close>. \<open>encodeSLEB v\<close> is the byte sequence of \<open>v\<close>; \<open>decodeSLEB\<close> reads
  one value from the front of a byte sequence and returns it with the number of bytes
  read.
\<close>

function encodeSLEB :: "int \<Rightarrow> u8 list" where
  "encodeSLEB v =
     (let byte = v mod 128; v' = v div 128 in
      if (v' = 0 \<and> byte < 64) \<or> (v' = - 1 \<and> 64 \<le> byte)
      then [word_of_int byte]
      else word_of_int (byte + 128) # encodeSLEB v')"
  by pat_completeness auto

lemma sleb_measure:
  fixes v :: int
  assumes "\<not> (v div 128 = 0 \<and> v mod 128 < 64 \<or> v div 128 = - 1 \<and> 64 \<le> v mod 128)"
  shows "\<bar>v div 128\<bar> < \<bar>v\<bar>"
proof -
  have eq: "v = 128 * (v div 128) + v mod 128" by simp
  have m: "0 \<le> v mod 128" "v mod 128 < 128" by simp_all
  show ?thesis using assms eq m by linarith
qed

termination encodeSLEB
proof (relation "measure (\<lambda>v. nat \<bar>v\<bar>)")
  show "wf (measure (\<lambda>v. nat \<bar>v\<bar>))" by simp
next
  fix v x xa :: int
  assume "x = v mod 128" "xa = v div 128"
    "\<not> (xa = 0 \<and> x < 64 \<or> xa = - 1 \<and> 64 \<le> x)"
  then have "\<bar>v div 128\<bar> < \<bar>v\<bar>" using sleb_measure by blast
  then show "(xa, v) \<in> measure (\<lambda>v. nat \<bar>v\<bar>)"
    using \<open>xa = v div 128\<close> by simp
qed

declare encodeSLEB.simps [simp del]

fun decodeSLEB :: "u8 list \<Rightarrow> (int \<times> nat) option" where
  "decodeSLEB [] = None"
| "decodeSLEB (b # bs) =
     (if uint b < 128
      then Some (if 64 \<le> uint b then uint b - 128 else uint b, 1)
      else (case decodeSLEB bs of
              None \<Rightarrow> None
            | Some (v, n) \<Rightarrow> Some (uint b mod 128 + 128 * v, n + 1)))"

definition appendSignedLEB128 :: "u8 list \<Rightarrow> int \<Rightarrow> u8 list" where
  "appendSignedLEB128 vec v = vec @ encodeSLEB v"

definition readSignedLEB128 :: "u8 list \<Rightarrow> nat \<Rightarrow> (int \<times> nat) option" where
  "readSignedLEB128 buf offset =
     (case decodeSLEB (drop offset buf) of
        None \<Rightarrow> None
      | Some (v, n) \<Rightarrow> Some (signed_take_bit 63 v, n))"

section \<open>The generator (write side)\<close>

text \<open>
  Modelled from the spec: \<open>delta\<close>, declared in DebugInfo.h, which is not among the
  sources. Section 4.3: the difference \<open>to - from\<close> of two field values as a signed
  32-bit integer; section 3, invariant 3: the difference must fit in 32 bits.
\<close>

definition delta :: "u32 \<Rightarrow> u32 \<Rightarrow> error + int" where
  "delta toVal fromVal =
     (let diff = uint toVal - uint fromVal in
      if - (2 ^ 31) \<le> diff \<and> diff < 2 ^ 31 then Inr diff else Inl AssertionFailure)"

text \<open>
  The members of \<open>DebugInfoGenerator\<close> that DebugInfo.cpp reads and writes:
  \<open>validData\<close>, \<open>sourcesData_\<close>, \<open>lexicalData_\<close> and \<open>files_\<close>. The filename
  string storage is opaque to the codec and left out.
\<close>

record DebugInfoGenerator =
  validData :: bool
  sourcesData :: "u8 list"
  lexicalData :: "u8 list"
  files :: "DebugFileRegion list"

text \<open>
  The body of the \<open>for\<close> loop of \<open>appendSourceLocations\<close> for one location \<open>nxt\<close>,
  with \<open>previous\<close> the location emitted before it.
\<close>

definition appendLocation ::
  "DebugSourceLocation \<Rightarrow> DebugSourceLocation \<Rightarrow> DebugSourceLocation \<Rightarrow>
   DebugInfoGenerator \<Rightarrow> error + DebugInfoGenerator" where
  "appendLocation start previous nxt g =
     (let g1 = (if filenameId nxt \<noteq> filenameId previous
                then g\<lparr>files := files g @
                       [\<lparr>fromAddress = length (sourcesData g) mod 2 ^ 32,
                         filenameId = filenameId nxt,
                         sourceMappingUrlId = sourceMappingUrlId start\<rparr>]\<rparr>
                else g) in
      bindE (delta (address nxt) (address previous)) (\<lambda>adelta.
      bindE (delta (line nxt) (line previous)) (\<lambda>ldelta0.
      bindE (delta (column nxt) (column previous)) (\<lambda>cdelta.
      bindE (delta (statement nxt) (statement previous)) (\<lambda>sdelta.
        let ldelta = ldelta0 * 2 + (if sdelta \<noteq> 0 then 1 else 0);
            s1 = appendSignedLEB128 (sourcesData g1) adelta;
            s2 = appendSignedLEB128 s1 ldelta;
            s3 = appendSignedLEB128 s2 cdelta;
            s4 = (if sdelta \<noteq> 0 then appendSignedLEB128 s3 sdelta else s3)
        in Inr (g1\<lparr>sourcesData := s4\<rparr>))))))"

fun appendLocations ::
  "DebugSourceLocation \<Rightarrow> DebugSourceLocation \<Rightarrow> DebugSourceLocation list \<Rightarrow>
   DebugInfoGenerator \<Rightarrow> error + DebugInfoGenerator" where
  "appendLocations start previous [] g = Inr g"
| "appendLocations start previous (nxt # rest) g =
     bindE (appendLocation start previous nxt g) (appendLocations start nxt rest)"

definition appendSourceLocations ::
  "DebugSourceLocation \<Rightarrow> u32 \<Rightarrow> DebugSourceLocation list \<Rightarrow> DebugInfoGenerator \<Rightarrow>
   error + (nat \<times> DebugInfoGenerator)" where
  "appendSourceLocations start functionIdx offsets g =
     (if \<not> validData g then Inl AssertionFailure
      else if statement start \<noteq> 0 then Inl AssertionFailure
      else
        let startOffset = length (sourcesData g) mod 2 ^ 32 in
        if offsets = [] then Inr (startOffset, g)
        else
          let g1 = (if files g = [] \<or>
                       DebugFileRegion.filenameId (last (files g)) \<noteq> filenameId start
                    then g\<lparr>files := files g @
                           [\<lparr>fromAddress = startOffset,
                             filenameId = filenameId start,
                             sourceMappingUrlId = sourceMappingUrlId start\<rparr>]\<rparr>
                    else g);
              s1 = appendSignedLEB128 (sourcesData g1) (uint functionIdx);
              s2 = appendSignedLEB128 s1 (uint (line start));
              s3 = appendSignedLEB128 s2 (uint (column start))
          in bindE (appendLocations start start offsets (g1\<lparr>sourcesData := s3\<rparr>)) (\<lambda>g2.
               Inr (startOffset,
                    g2\<lparr>sourcesData := appendSignedLEB128 (sourcesData g2) (- 1)\<rparr>)))"

text \<open>
  Modelled from the spec: the constant \<open>kEmptyLexicalDataOffset\<close> of DebugInfo.h.
  Section 6: it is 0.
\<close>

definition kEmptyLexicalDataOffset :: nat where
  "kEmptyLexicalDataOffset = 0"

text \<open>
  Modelled from the spec: \<open>appendString\<close> of DebugInfo.h. Section 4.2: the length as
  signed LEB128, then the raw bytes.
\<close>

definition appendString :: "u8 list \<Rightarrow> u8 list \<Rightarrow> u8 list" where
  "appendString vec str = appendSignedLEB128 vec (int (length str)) @ str"

text \<open>
  The constructor. The buffers and the table of a new generator are empty, and it is
  valid until \<open>serializeWithMove\<close> (section 5 of the specification; the initial value
  of \<open>validData\<close> is in DebugInfo.h).
\<close>

definition newDebugInfoGenerator :: "error + DebugInfoGenerator" where
  "newDebugInfoGenerator =
     (let lexical0 = [] in
      if length lexical0 \<noteq> kEmptyLexicalDataOffset then Inl AssertionFailure
      else Inr \<lparr>validData = True, sourcesData = [],
                lexicalData = appendSignedLEB128 (appendSignedLEB128 lexical0 (- 1)) 0,
                files = []\<rparr>)"

definition appendLexicalData ::
  "u32 option \<Rightarrow> u8 list list \<Rightarrow> DebugInfoGenerator \<Rightarrow> error + (nat \<times> DebugInfoGenerator)" where
  "appendLexicalData parentFunc names g =
     (if \<not> validData g then Inl AssertionFailure
      else if parentFunc = None \<and> names = [] then Inr (kEmptyLexicalDataOffset, g)
      else
        let startOffset = length (lexicalData g) mod 2 ^ 32;
            l1 = appendSignedLEB128 (lexicalData g)
                   (case parentFunc of Some p \<Rightarrow> uint p | None \<Rightarrow> - 1);
            l2 = appendSignedLEB128 l1 (int (length names));
            l3 = foldl appendString l2 names
        in Inr (startOffset, g\<lparr>lexicalData := l3\<rparr>))"

section \<open>The serialized debug info (read side)\<close>

text \<open>
  The members \<open>files_\<close>, \<open>lexicalDataOffset_\<close> and \<open>data_\<close> of \<open>DebugInfo\<close>, as
  \<open>serializeWithMove\<close> passes them to its constructor.
\<close>

record DebugInfo =
  info_files :: "DebugFileRegion list"
  lexicalDataOffset :: nat
  info_data :: "u8 list"

text \<open>
  Modelled from the spec: the accessor \<open>lexicalData()\<close> of DebugInfo.h. Section 6: the
  suffix of the blob from \<open>lexicalDataOffset\<close>.
\<close>

definition info_lexicalData :: "DebugInfo \<Rightarrow> u8 list" where
  "info_lexicalData d = drop (lexicalDataOffset d) (info_data d)"

definition serializeWithMove :: "DebugInfoGenerator \<Rightarrow> error + (DebugInfo \<times> DebugInfoGenerator)" where
  "serializeWithMove g =
     (if \<not> validData g then Inl AssertionFailure
      else
        let lexicalStart = length (sourcesData g) mod 2 ^ 32;
            combinedData = sourcesData g @ lexicalData g
        in Inr (\<lparr>info_files = files g, lexicalDataOffset = lexicalStart,
                  info_data = combinedData\<rparr>,
                g\<lparr>validData := False, sourcesData := [], files := []\<rparr>))"

subsection \<open>The function deserializer\<close>

record FunctionDebugInfoDeserializer =
  data :: "u8 list"
  offset :: nat
  functionIndex :: u32
  current :: DebugSourceLocation

definition decode1Int ::
  "FunctionDebugInfoDeserializer \<Rightarrow> error + (int \<times> FunctionDebugInfoDeserializer)" where
  "decode1Int fd =
     (case readSignedLEB128 (data fd) (offset fd) of
        None \<Rightarrow> Inl ReadPastEnd
      | Some (result, n) \<Rightarrow> Inr (result, fd\<lparr>offset := (offset fd + n) mod 2 ^ 32\<rparr>))"

text \<open>The constructor: it reads the function index and the line and column of the header.\<close>

definition newDeserializer ::
  "u8 list \<Rightarrow> nat \<Rightarrow> error + FunctionDebugInfoDeserializer" where
  "newDeserializer buf off =
     bindE (decode1Int \<lparr>data = buf, offset = off, functionIndex = 0,
                        current = defaultLocation\<rparr>) (\<lambda>(fi, fd1).
     bindE (decode1Int (fd1\<lparr>functionIndex := word_of_int fi\<rparr>)) (\<lambda>(l, fd2).
     bindE (decode1Int (fd2\<lparr>current := (current fd2)\<lparr>line := word_of_int l\<rparr>\<rparr>)) (\<lambda>(c, fd3).
       Inr (fd3\<lparr>current := (current fd3)\<lparr>column := word_of_int c\<rparr>\<rparr>))))"

definition next' ::
  "FunctionDebugInfoDeserializer \<Rightarrow>
   error + (DebugSourceLocation option \<times> FunctionDebugInfoDeserializer)" where
  "next' fd =
     bindE (decode1Int fd) (\<lambda>(addressDelta, fd1).
       if addressDelta = - 1 then Inr (None, fd1)
       else
         bindE (decode1Int fd1) (\<lambda>(lineDelta0, fd2).
         bindE (decode1Int fd2) (\<lambda>(columnDelta, fd3).
         bindE (if lineDelta0 AND 1 \<noteq> 0 then decode1Int fd3 else Inr (0, fd3))
           (\<lambda>(statementDelta, fd4).
             let lineDelta = drop_bit 1 lineDelta0;
                 c = current fd4;
                 c' = c\<lparr>address := address c + word_of_int addressDelta,
                        line := line c + word_of_int lineDelta,
                        column := column c + word_of_int columnDelta,
                        statement := statement c + word_of_int statementDelta\<rparr>
             in Inr (Some c', fd4\<lparr>current := c'\<rparr>)))))"

subsection \<open>Queries\<close>

text \<open>
  \<open>getFilenameForAddress\<close>: the loop over \<open>files_\<close> with its \<open>break\<close>, \<open>fileLoop\<close>
  carrying \<open>value\<close>.
\<close>

fun fileLoop :: "nat \<Rightarrow> DebugFileRegion list \<Rightarrow> u32 option \<Rightarrow> u32 option" where
  "fileLoop debugOffset [] val = val"
| "fileLoop debugOffset (r # rs) val =
     (if fromAddress r \<le> debugOffset
      then fileLoop debugOffset rs (Some (DebugFileRegion.filenameId r))
      else val)"

definition getFilenameForAddress :: "DebugInfo \<Rightarrow> nat \<Rightarrow> u32 option" where
  "getFilenameForAddress d debugOffset = fileLoop debugOffset (info_files d) None"

text \<open>
  The \<open>while\<close> loop of \<open>getLocationForAddress\<close>. It returns \<open>lastLocation\<close> and
  \<open>lastLocationOffset\<close> as they are when the loop is left; \<open>None\<close> is a loop that
  does not end.
\<close>

partial_function (option) locationLoop ::
  "u32 \<Rightarrow> FunctionDebugInfoDeserializer \<Rightarrow> DebugSourceLocation \<Rightarrow> nat \<Rightarrow> nat \<Rightarrow>
   (error + DebugSourceLocation \<times> nat) option" where
  "locationLoop offsetInFunction fdid lastLocation lastLocationOffset nextLocationOffset =
     (case next' fdid of
        Inl e \<Rightarrow> Some (Inl e)
      | Inr (None, fdid') \<Rightarrow> Some (Inr (lastLocation, lastLocationOffset))
      | Inr (Some loc, fdid') \<Rightarrow>
          if address loc > offsetInFunction
          then Some (Inr (lastLocation, lastLocationOffset))
          else locationLoop offsetInFunction fdid' loc nextLocationOffset (offset fdid'))"

definition getLocationForAddress ::
  "DebugInfo \<Rightarrow> nat \<Rightarrow> u32 \<Rightarrow> (error + DebugSourceLocation option) option" where
  "getLocationForAddress d debugOffset offsetInFunction =
     (if \<not> debugOffset < length (info_data d) then Some (Inl AssertionFailure)
      else
        case newDeserializer (info_data d) debugOffset of
          Inl e \<Rightarrow> Some (Inl e)
        | Inr fdid \<Rightarrow>
            (case locationLoop offsetInFunction fdid (current fdid) debugOffset (offset fdid) of
               None \<Rightarrow> None
             | Some (Inl e) \<Rightarrow> Some (Inl e)
             | Some (Inr (lastLocation, lastLocationOffset)) \<Rightarrow>
                 (case getFilenameForAddress d lastLocationOffset of
                    Some file \<Rightarrow>
                      Some (Inr (Some (lastLocation\<lparr>address := offsetInFunction,
                                                    filenameId := file\<rparr>)))
                  | None \<Rightarrow> Some (Inr None))))"

text \<open>
  \<open>getAddressForLocation\<close>: the loop over \<open>files_\<close> that finds \<open>start\<close> and \<open>end\<close>
  (\<open>rangeLoop\<close>, carrying \<open>foundFile\<close>, \<open>start\<close> and \<open>end\<close>), the inner loop over the
  locations of one function (\<open>searchFunction\<close>) and the outer loop over the functions
  (\<open>searchFunctions\<close>).
\<close>

fun rangeLoop ::
  "u32 \<Rightarrow> nat \<Rightarrow> DebugFileRegion list \<Rightarrow> bool \<times> nat \<times> nat \<Rightarrow> bool \<times> nat \<times> nat" where
  "rangeLoop fileId lexOff [] st = st"
| "rangeLoop fileId lexOff (cur # rest) (foundFile, start, end') =
     (if foundFile then (foundFile, start, fromAddress cur)
      else if DebugFileRegion.filenameId cur = fileId
      then rangeLoop fileId lexOff rest (True, fromAddress cur, lexOff)
      else rangeLoop fileId lexOff rest (foundFile, start, end'))"

partial_function (option) searchFunction ::
  "u32 \<Rightarrow> u32 option \<Rightarrow> FunctionDebugInfoDeserializer \<Rightarrow>
   (error + DebugSearchResult option \<times> FunctionDebugInfoDeserializer) option" where
  "searchFunction targetLine targetColumn fdid =
     (case next' fdid of
        Inl e \<Rightarrow> Some (Inl e)
      | Inr (None, fdid') \<Rightarrow> Some (Inr (None, fdid'))
      | Inr (Some loc, fdid') \<Rightarrow>
          if line loc = targetLine \<and>
             (targetColumn = None \<or> Some (column loc) = targetColumn)
          then Some (Inr (Some (DebugSearchResult (functionIndex fdid') (address loc)
                                  (line loc) (column loc)), fdid'))
          else searchFunction targetLine targetColumn fdid')"

partial_function (option) searchFunctions ::
  "u8 list \<Rightarrow> u32 \<Rightarrow> u32 option \<Rightarrow> nat \<Rightarrow> nat \<Rightarrow> (error + DebugSearchResult option) option" where
  "searchFunctions buf targetLine targetColumn end' off =
     (if off < end'
      then (case newDeserializer buf off of
              Inl e \<Rightarrow> Some (Inl e)
            | Inr fdid \<Rightarrow>
                (case searchFunction targetLine targetColumn fdid of
                   None \<Rightarrow> None
                 | Some (Inl e) \<Rightarrow> Some (Inl e)
                 | Some (Inr (Some res, fdid')) \<Rightarrow> Some (Inr (Some res))
                 | Some (Inr (None, fdid')) \<Rightarrow>
                     searchFunctions buf targetLine targetColumn end' (offset fdid')))
      else Some (Inr None))"

definition getAddressForLocation ::
  "DebugInfo \<Rightarrow> u32 \<Rightarrow> u32 \<Rightarrow> u32 option \<Rightarrow> (error + DebugSearchResult option) option" where
  "getAddressForLocation d fileId targetLine targetColumn =
     (case rangeLoop fileId (lexicalDataOffset d) (info_files d) (False, 0, 0) of
        (foundFile, start, end') \<Rightarrow>
          if \<not> foundFile then Some (Inr None)
          else searchFunctions (info_data d) targetLine targetColumn end' start)"




definition getParentFunctionId :: "DebugInfo \<Rightarrow> nat \<Rightarrow> error + u32 option" where
  "getParentFunctionId d off =
     (let buf = info_lexicalData d in
      case readSignedLEB128 buf off of
        None \<Rightarrow> Inl ReadPastEnd
      | Some (parentId, n) \<Rightarrow>
          if parentId < 0 then Inr None
          else if \<not> parentId \<le> 2 ^ 32 - 1 then Inl AssertionFailure
          else Inr (Some (word_of_int parentId)))"

section \<open>The LEB128 codec round-trips\<close>

lemma uint_byte: "0 \<le> x \<Longrightarrow> x < 256 \<Longrightarrow> uint (word_of_int x :: u8) = x"
  by (simp add: uint_word_of_int take_bit_eq_mod)

lemma encodeSLEB_final:
  assumes "(v div 128 = 0 \<and> v mod 128 < 64) \<or> (v div 128 = - 1 \<and> 64 \<le> v mod 128)"
  shows "encodeSLEB v = [word_of_int (v mod 128)]"
  using assms by (subst encodeSLEB.simps) (simp add: Let_def)

lemma encodeSLEB_more:
  assumes "\<not> ((v div 128 = 0 \<and> v mod 128 < 64) \<or> (v div 128 = - 1 \<and> 64 \<le> v mod 128))"
  shows "encodeSLEB v = word_of_int (v mod 128 + 128) # encodeSLEB (v div 128)"
  using assms by (subst encodeSLEB.simps) (simp add: Let_def)

lemma encodeSLEB_small:
  assumes "- 64 \<le> v" "v < 64"
  shows "encodeSLEB v = [word_of_int (v mod 128)]"
proof (rule encodeSLEB_final, cases "0 \<le> v")
  case True
  then have "v div 128 = 0" "v mod 128 = v" using assms by simp_all
  then show "(v div 128 = 0 \<and> v mod 128 < 64) \<or> (v div 128 = - 1 \<and> 64 \<le> v mod 128)"
    using assms by simp
next
  case False
  then have d: "v div 128 = - 1" using assms by (simp add: div_pos_neg_trivial)
  have "v = 128 * (v div 128) + v mod 128" by simp
  then have "v mod 128 = v + 128" using d by linarith
  then show "(v div 128 = 0 \<and> v mod 128 < 64) \<or> (v div 128 = - 1 \<and> 64 \<le> v mod 128)"
    using d assms by simp
qed

lemma encodeSLEB_nonempty: "encodeSLEB v \<noteq> []"
  by (subst encodeSLEB.simps) (simp add: Let_def)

lemma decode_encodeSLEB:
  "decodeSLEB (encodeSLEB v @ rest) = Some (v, length (encodeSLEB v))"
proof (induction v rule: encodeSLEB.induct)
  case (1 v)
  have m: "0 \<le> v mod 128" "v mod 128 < 128" by simp_all
  have eq: "v = 128 * (v div 128) + v mod 128" by simp
  show ?case
  proof (cases "(v div 128 = 0 \<and> v mod 128 < 64) \<or> (v div 128 = - 1 \<and> 64 \<le> v mod 128)")
    case final: True
    have e: "encodeSLEB v = [word_of_int (v mod 128)]"
      using final by (rule encodeSLEB_final)
    have u: "uint (word_of_int (v mod 128) :: u8) = v mod 128"
      using m by (intro uint_byte) auto
    have val: "(64 \<le> v mod 128 \<longrightarrow> v mod 128 - 128 = v) \<and>
               (\<not> 64 \<le> v mod 128 \<longrightarrow> v mod 128 = v)"
    proof (cases "64 \<le> v mod 128")
      case hi: True
      with final have "v div 128 = - 1" by linarith
      with eq have "v = v mod 128 - 128" by linarith
      with hi show ?thesis by simp
    next
      case lo: False
      with final have "v div 128 = 0" by linarith
      with eq have "v = v mod 128" by linarith
      with lo show ?thesis by simp
    qed
    show ?thesis using m val by (simp add: e u)
  next
    case more: False
    define b :: u8 where "b = word_of_int (v mod 128 + 128)"
    have e: "encodeSLEB v = b # encodeSLEB (v div 128)"
      unfolding b_def using more by (rule encodeSLEB_more)
    have u: "uint b = v mod 128 + 128"
      unfolding b_def using m by (intro uint_byte) auto
    have ih: "decodeSLEB (encodeSLEB (v div 128) @ rest) =
              Some (v div 128, length (encodeSLEB (v div 128)))"
      using more "1.IH" by simp
    have nl: "\<not> uint b < 128"
      using u m by linarith
    have md: "uint b mod 128 + 128 * (v div 128) = v"
      unfolding u by simp
    show ?thesis by (simp add: e nl md ih)
  qed
qed

lemma int64_id: "- (2 ^ 63) \<le> v \<Longrightarrow> v < 2 ^ 63 \<Longrightarrow> signed_take_bit 63 (v :: int) = v"
  by (simp add: signed_take_bit_int_eq_self)

lemma read_encoded:
  assumes "- (2 ^ 63) \<le> v" "v < 2 ^ 63"
  shows "readSignedLEB128 (pre @ encodeSLEB v @ post) (length pre) = Some (v, length (encodeSLEB v))"
  using assms by (simp add: readSignedLEB128_def decode_encodeSLEB int64_id)

lemma decode1Int_encoded:
  assumes d: "data fd = pre @ encodeSLEB v @ post"
    and o: "offset fd = length pre"
    and len: "length (data fd) < 2 ^ 32"
    and r: "- (2 ^ 63) \<le> v" "v < 2 ^ 63"
  shows "decode1Int fd = Inr (v, fd\<lparr>offset := length pre + length (encodeSLEB v)\<rparr>)"
proof -
  have "length pre + length (encodeSLEB v) \<le> length (data fd)"
    by (simp add: d)
  then have "(length pre + length (encodeSLEB v)) mod 2 ^ 32 = length pre + length (encodeSLEB v)"
    using len by simp
  then show ?thesis
    using r by (simp add: decode1Int_def d o read_encoded)
qed

section \<open>The parent of a lexical scope\<close>

text \<open>
  C10. \<open>getParentFunctionId\<close> reads one signed LEB128 value \<open>v\<close> at the given offset of
  the lexical blob. It returns none exactly when \<open>v\<close> is negative, whatever negative value
  it is; otherwise, \<open>v\<close> being at most \<open>UINT32_MAX\<close> as the code asserts, it returns
  \<open>v\<close> converted to the 32-bit id \<open>word_of_int v\<close>; and whenever it returns an id, the
  id is \<open>word_of_int v\<close>.
\<close>

theorem getParentFunctionId_none_iff_negative:
  assumes "readSignedLEB128 (info_lexicalData d) off = Some (v, n)"
  shows "(getParentFunctionId d off = Inr None \<longleftrightarrow> v < 0) \<and>
         (0 \<le> v \<and> v \<le> 2 ^ 32 - 1 \<longrightarrow> getParentFunctionId d off = Inr (Some (word_of_int v))) \<and>
         (\<forall>i. getParentFunctionId d off = Inr (Some i) \<longrightarrow> 0 \<le> v \<and> i = word_of_int v)"
  using assms by (auto simp: getParentFunctionId_def Let_def)

theorem getParentFunctionId_none_iff_negative_witness:
  "readSignedLEB128 (info_lexicalData \<lparr>info_files = [], lexicalDataOffset = 1, info_data = [5, 0x7e, 0]\<rparr>) 0
     = Some (- 2, 1) \<and>
   getParentFunctionId \<lparr>info_files = [], lexicalDataOffset = 1, info_data = [5, 0x7e, 0]\<rparr> 0 = Inr None \<and>
   readSignedLEB128 (info_lexicalData \<lparr>info_files = [], lexicalDataOffset = 1, info_data = [5, 0x7e, 0]\<rparr>) 1
     = Some (0, 1) \<and>
   getParentFunctionId \<lparr>info_files = [], lexicalDataOffset = 1, info_data = [5, 0x7e, 0]\<rparr> 1 = Inr (Some 0)"
proof -
  let ?d = "\<lparr>info_files = [], lexicalDataOffset = 1, info_data = [5, 0x7e, 0 :: u8]\<rparr>"
  have r0: "readSignedLEB128 (info_lexicalData ?d) 0 = Some (- 2, 1)"
    by (simp add: readSignedLEB128_def info_lexicalData_def)
  have r1: "readSignedLEB128 (info_lexicalData ?d) 1 = Some (0, 1)"
    by (simp add: readSignedLEB128_def info_lexicalData_def)
  show ?thesis
    using getParentFunctionId_none_iff_negative [OF r0]
      getParentFunctionId_none_iff_negative [OF r1] r0 r1
    by simp
qed

section \<open>What one call of the encoder appends\<close>

text \<open>
  The four integers of the record that takes \<open>previous\<close> to \<open>nxt\<close> (the line delta
  already tagged with the presence bit), the bytes of the record, and the condition under
  which none of the four assertions of \<open>delta\<close> fails.
\<close>

definition fits32 :: "u32 \<Rightarrow> u32 \<Rightarrow> bool" where
  "fits32 toVal fromVal \<longleftrightarrow>
     - (2 ^ 31) \<le> uint toVal - uint fromVal \<and> uint toVal - uint fromVal < 2 ^ 31"

definition deltasFit :: "DebugSourceLocation \<Rightarrow> DebugSourceLocation \<Rightarrow> bool" where
  "deltasFit previous nxt \<longleftrightarrow>
     fits32 (address nxt) (address previous) \<and> fits32 (line nxt) (line previous) \<and>
     fits32 (column nxt) (column previous) \<and> fits32 (statement nxt) (statement previous)"

definition taggedLineDelta :: "DebugSourceLocation \<Rightarrow> DebugSourceLocation \<Rightarrow> int" where
  "taggedLineDelta previous nxt =
     (uint (line nxt) - uint (line previous)) * 2 +
     (if uint (statement nxt) - uint (statement previous) \<noteq> 0 then 1 else 0)"

definition recordBytes :: "DebugSourceLocation \<Rightarrow> DebugSourceLocation \<Rightarrow> u8 list" where
  "recordBytes previous nxt =
     encodeSLEB (uint (address nxt) - uint (address previous)) @
     encodeSLEB (taggedLineDelta previous nxt) @
     encodeSLEB (uint (column nxt) - uint (column previous)) @
     (if uint (statement nxt) - uint (statement previous) \<noteq> 0
      then encodeSLEB (uint (statement nxt) - uint (statement previous)) else [])"

fun chainFits :: "DebugSourceLocation \<Rightarrow> DebugSourceLocation list \<Rightarrow> bool" where
  "chainFits previous [] = True"
| "chainFits previous (nxt # rest) = (deltasFit previous nxt \<and> chainFits nxt rest)"

fun streamBytes :: "DebugSourceLocation \<Rightarrow> DebugSourceLocation list \<Rightarrow> u8 list" where
  "streamBytes previous [] = []"
| "streamBytes previous (nxt # rest) = recordBytes previous nxt @ streamBytes nxt rest"

definition newRegion ::
  "DebugSourceLocation \<Rightarrow> DebugSourceLocation \<Rightarrow> DebugSourceLocation \<Rightarrow> nat \<Rightarrow>
   DebugFileRegion list" where
  "newRegion start previous nxt sz =
     (if filenameId nxt \<noteq> filenameId previous
      then [\<lparr>fromAddress = sz mod 2 ^ 32, filenameId = filenameId nxt,
             sourceMappingUrlId = sourceMappingUrlId start\<rparr>]
      else [])"

lemma delta_Inr: "delta a b = Inr d \<longleftrightarrow> fits32 a b \<and> d = uint a - uint b"
  by (auto simp: delta_def fits32_def Let_def)

lemma delta_fits: "fits32 a b \<Longrightarrow> delta a b = Inr (uint a - uint b)"
  by (simp add: delta_Inr)

lemma delta_unfit: "\<not> fits32 a b \<Longrightarrow> delta a b = Inl AssertionFailure"
  by (simp add: delta_def fits32_def Let_def)

lemma appendLocation_fits:
  assumes "deltasFit previous nxt"
  shows "appendLocation start previous nxt g =
         Inr (g\<lparr>files := files g @ newRegion start previous nxt (length (sourcesData g)),
                sourcesData := sourcesData g @ recordBytes previous nxt\<rparr>)"
  using assms
  by (simp add: appendLocation_def deltasFit_def delta_fits bindE_def Let_def newRegion_def
      recordBytes_def taggedLineDelta_def appendSignedLEB128_def)

lemma appendLocation_unfit:
  assumes "\<not> deltasFit previous nxt"
  shows "appendLocation start previous nxt g = Inl AssertionFailure"
proof -
  have b: "\<And>a b f. bindE (delta a b) f =
              (if fits32 a b then f (uint a - uint b) else Inl AssertionFailure)"
    by (simp add: delta_fits delta_unfit bindE_def)
  show ?thesis
    using assms by (auto simp: appendLocation_def deltasFit_def Let_def b)
qed

lemma appendLocation_Inr:
  "appendLocation start previous nxt g = Inr g' \<longleftrightarrow>
     deltasFit previous nxt \<and>
     g' = g\<lparr>files := files g @ newRegion start previous nxt (length (sourcesData g)),
            sourcesData := sourcesData g @ recordBytes previous nxt\<rparr>"
  by (cases "deltasFit previous nxt") (auto simp: appendLocation_fits appendLocation_unfit)

lemma appendLocations_sources:
  "appendLocations start previous offs g = Inr g' \<Longrightarrow>
     chainFits previous offs \<and>
     sourcesData g' = sourcesData g @ streamBytes previous offs \<and>
     validData g' = validData g \<and> lexicalData g' = lexicalData g"
proof (induction offs arbitrary: previous g)
  case Nil
  then show ?case by simp
next
  case (Cons nxt rest)
  from Cons.prems obtain g1 where
    s: "appendLocation start previous nxt g = Inr g1" and
    r: "appendLocations start nxt rest g1 = Inr g'"
    by (auto simp: bindE_def split: sum.splits)
  from s have f: "deltasFit previous nxt"
    and g1: "g1 = g\<lparr>files := files g @ newRegion start previous nxt (length (sourcesData g)),
                     sourcesData := sourcesData g @ recordBytes previous nxt\<rparr>"
    by (simp_all add: appendLocation_Inr)
  from Cons.IH [OF r] f g1 show ?case by simp
qed

lemma appendLocations_fits:
  "chainFits previous offs \<Longrightarrow> \<exists>g'. appendLocations start previous offs g = Inr g'"
proof (induction offs arbitrary: previous g)
  case Nil
  then show ?case by simp
next
  case (Cons nxt rest)
  then show ?case by (simp add: appendLocation_fits bindE_def)
qed

section \<open>Decoding what the encoder wrote\<close>

text \<open>
  \<open>advance c previous nxt\<close> is the decoder's current location \<open>c\<close> after it has added the
  deltas from \<open>previous\<close> to \<open>nxt\<close>.
\<close>

definition advance ::
  "DebugSourceLocation \<Rightarrow> DebugSourceLocation \<Rightarrow> DebugSourceLocation \<Rightarrow> DebugSourceLocation" where
  "advance c previous nxt =
     c\<lparr>address := address c + (address nxt - address previous),
       line := line c + (line nxt - line previous),
       column := column c + (column nxt - column previous),
       statement := statement c + (statement nxt - statement previous)\<rparr>"

lemma tagged_bit: "(l * 2 + (if s \<noteq> 0 then 1 else 0)) AND (1 :: int) \<noteq> 0 \<longleftrightarrow> s \<noteq> (0 :: int)"
  by (simp add: and_one_eq)

lemma tagged_shift: "drop_bit 1 (l * 2 + (if s \<noteq> (0 :: int) then 1 else 0) :: int) = l"
  by (simp add: drop_bit_eq_div)

lemma word_of_int_uint_diff: "word_of_int (uint a - uint b) = (a - b :: u32)"
  by simp

lemma fits32_int64: "fits32 a b \<Longrightarrow> - (2 ^ 63) \<le> uint a - uint b \<and> uint a - uint b < 2 ^ 63"
  by (simp add: fits32_def)

lemma tagged_int64:
  "deltasFit previous nxt \<Longrightarrow>
   - (2 ^ 63) \<le> taggedLineDelta previous nxt \<and> taggedLineDelta previous nxt < 2 ^ 63"
  by (simp add: deltasFit_def fits32_def taggedLineDelta_def)

lemma next'_record:
  assumes d: "data fd = pre @ recordBytes previous nxt @ post"
    and o: "offset fd = length pre"
    and len: "length (data fd) < 2 ^ 32"
    and fit: "deltasFit previous nxt"
    and nt: "uint (address nxt) - uint (address previous) \<noteq> - 1"
  shows "next' fd =
         Inr (Some (advance (current fd) previous nxt),
              fd\<lparr>offset := length pre + length (recordBytes previous nxt),
                 current := advance (current fd) previous nxt\<rparr>)"
proof -
  define a where "a = uint (address nxt) - uint (address previous)"
  define l where "l = taggedLineDelta previous nxt"
  define c where "c = uint (column nxt) - uint (column previous)"
  define s where "s = uint (statement nxt) - uint (statement previous)"
  define sb where "sb = (if s \<noteq> 0 then encodeSLEB s else [])"
  have rb: "recordBytes previous nxt = encodeSLEB a @ encodeSLEB l @ encodeSLEB c @ sb"
    by (simp add: recordBytes_def a_def l_def c_def s_def sb_def)
  have ra: "- (2 ^ 63) \<le> a" "a < 2 ^ 63" and rc: "- (2 ^ 63) \<le> c" "c < 2 ^ 63"
    and rs: "- (2 ^ 63) \<le> s" "s < 2 ^ 63"
    using fit fits32_int64 by (auto simp: deltasFit_def a_def c_def s_def)
  have rl: "- (2 ^ 63) \<le> l" "l < 2 ^ 63"
    using tagged_int64 [OF fit] by (simp_all add: l_def)
  define fd1 where "fd1 = fd\<lparr>offset := length pre + length (encodeSLEB a)\<rparr>"
  define fd2 where "fd2 = fd1\<lparr>offset := length (pre @ encodeSLEB a) + length (encodeSLEB l)\<rparr>"
  define fd3 where
    "fd3 = fd2\<lparr>offset := length (pre @ encodeSLEB a @ encodeSLEB l) + length (encodeSLEB c)\<rparr>"
  define fd4 where
    "fd4 = fd3\<lparr>offset := length (pre @ encodeSLEB a @ encodeSLEB l @ encodeSLEB c) + length sb\<rparr>"
  have s1: "decode1Int fd = Inr (a, fd1)"
    unfolding fd1_def
    by (rule decode1Int_encoded [where post = "encodeSLEB l @ encodeSLEB c @ sb @ post"])
       (use d o len ra in \<open>simp_all add: rb\<close>)
  have s2: "decode1Int fd1 = Inr (l, fd2)"
    unfolding fd2_def
    by (rule decode1Int_encoded [where post = "encodeSLEB c @ sb @ post"])
       (use d o len rl in \<open>simp_all add: rb fd1_def\<close>)
  have s3: "decode1Int fd2 = Inr (c, fd3)"
    unfolding fd3_def
    by (rule decode1Int_encoded [where post = "sb @ post"])
       (use d o len rc in \<open>simp_all add: rb fd1_def fd2_def\<close>)
  have s4: "(if l AND 1 \<noteq> 0 then decode1Int fd3 else Inr (0, fd3)) = Inr (s, fd4)"
  proof (cases "s = 0")
    case True
    then have "l AND 1 = 0"
      using tagged_bit [of "uint (line nxt) - uint (line previous)" s]
      by (simp add: l_def taggedLineDelta_def s_def)
    then show ?thesis using True by (simp add: fd4_def sb_def fd3_def)
  next
    case False
    then have b: "l AND 1 \<noteq> 0"
      using tagged_bit [of "uint (line nxt) - uint (line previous)" s]
      by (simp add: l_def taggedLineDelta_def s_def)
    have sbe: "sb = encodeSLEB s"
      using False by (simp add: sb_def)
    have "decode1Int fd3 = Inr (s, fd4)"
      unfolding fd4_def sbe
      by (rule decode1Int_encoded [where post = post])
         (use d o len rs in \<open>simp_all add: rb fd1_def fd2_def fd3_def sbe\<close>)
    then show ?thesis using b by simp
  qed
  have sh: "drop_bit 1 l = uint (line nxt) - uint (line previous)"
    unfolding l_def taggedLineDelta_def s_def [symmetric] by (rule tagged_shift)
  then have sh': "drop_bit (Suc 0) l = uint (line nxt) - uint (line previous)"
    by simp
  have cur: "current fd4 = current fd"
    by (simp add: fd4_def fd3_def fd2_def fd1_def)
  have off: "fd4\<lparr>current := x\<rparr> = fd\<lparr>offset := length pre + length (recordBytes previous nxt),
                                       current := x\<rparr>" for x
    by (simp add: fd4_def fd3_def fd2_def fd1_def rb)
  have na: "a \<noteq> - 1" using nt by (simp add: a_def)
  show ?thesis
    unfolding next'_def
    apply (simp add: s1 bindE_def na)
    apply (simp add: s2 s3 s4 Let_def cur off)
    apply (simp add: advance_def a_def c_def s_def sh')
    done
qed

text \<open>
  \<open>walk fd recs\<close> calls \<open>next()\<close> once for each element of \<open>recs\<close> and once more: it
  is the deserializer left behind if each call returns the location listed and was made
  at the byte offset listed, and the last call returns none. \<open>yields fd locs\<close> says the
  same of the locations alone.
\<close>

fun walk ::
  "FunctionDebugInfoDeserializer \<Rightarrow> (nat \<times> DebugSourceLocation) list \<Rightarrow>
   FunctionDebugInfoDeserializer option" where
  "walk fd [] = (case next' fd of Inr (None, fd') \<Rightarrow> Some fd' | _ \<Rightarrow> None)"
| "walk fd ((off, l) # rs) =
     (case next' fd of
        Inr (Some loc, fd') \<Rightarrow> if off = offset fd \<and> loc = l then walk fd' rs else None
      | _ \<Rightarrow> None)"

fun yields :: "FunctionDebugInfoDeserializer \<Rightarrow> DebugSourceLocation list \<Rightarrow> bool" where
  "yields fd [] = (case next' fd of Inr (None, fd') \<Rightarrow> True | _ \<Rightarrow> False)"
| "yields fd (l # ls) =
     (case next' fd of Inr (Some loc, fd') \<Rightarrow> loc = l \<and> yields fd' ls | _ \<Rightarrow> False)"

lemma walk_yields: "walk fd recs = Some fd' \<Longrightarrow> yields fd (map snd recs)"
proof (induction recs arbitrary: fd)
  case Nil
  then show ?case by (auto split: sum.splits option.splits prod.splits)
next
  case (Cons r rs)
  obtain off l where r: "r = (off, l)" by (cases r)
  from Cons.prems obtain fd1 where
    n: "next' fd = Inr (Some l, fd1)" and w: "walk fd1 rs = Some fd'"
    unfolding r by (auto split: sum.splits option.splits prod.splits if_splits)
  from Cons.IH [OF w] n show ?case by (simp add: r)
qed

text \<open>
  What the decoder returns for a location \<open>l\<close> of a function that starts at \<open>start\<close>:
  the address is relative to the start, and the two ids, which the stream does not
  store, are 0.
\<close>

definition relocate :: "DebugSourceLocation \<Rightarrow> DebugSourceLocation \<Rightarrow> DebugSourceLocation" where
  "relocate start l =
     l\<lparr>address := address l - address start, filenameId := 0, sourceMappingUrlId := 0\<rparr>"

fun recordOffsets :: "nat \<Rightarrow> DebugSourceLocation \<Rightarrow> DebugSourceLocation list \<Rightarrow> nat list" where
  "recordOffsets off previous [] = []"
| "recordOffsets off previous (nxt # rest) =
     off # recordOffsets (off + length (recordBytes previous nxt)) nxt rest"

fun noTerminator :: "DebugSourceLocation \<Rightarrow> DebugSourceLocation list \<Rightarrow> bool" where
  "noTerminator previous [] = True"
| "noTerminator previous (nxt # rest) =
     (uint (address nxt) - uint (address previous) \<noteq> - 1 \<and> noTerminator nxt rest)"

lemma sorted_noTerminator:
  "sorted (map address (previous # offs)) \<Longrightarrow> noTerminator previous offs"
proof (induction offs arbitrary: previous)
  case Nil
  then show ?case by simp
next
  case (Cons nxt rest)
  then have "address previous \<le> address nxt" by simp
  then have "uint (address previous) \<le> uint (address nxt)" by (simp add: word_le_def)
  then have "uint (address nxt) - uint (address previous) \<noteq> - 1" by linarith
  moreover have "noTerminator nxt rest" using Cons by simp
  ultimately show ?case by simp
qed

lemma encodeSLEB_minus1: "encodeSLEB (- 1) = [0x7F]"
  by (simp add: encodeSLEB_small)

lemma next'_terminator:
  assumes d: "data fd = pre @ encodeSLEB (- 1) @ post"
    and o: "offset fd = length pre"
    and len: "length (data fd) < 2 ^ 32"
  shows "next' fd = Inr (None, fd\<lparr>offset := length pre + 1\<rparr>)"
proof -
  have "decode1Int fd = Inr (- 1, fd\<lparr>offset := length pre + length (encodeSLEB (- 1))\<rparr>)"
    by (rule decode1Int_encoded [OF d o len]) simp_all
  then show ?thesis
    by (simp add: next'_def bindE_def encodeSLEB_minus1)
qed

lemma advance_relocate:
  "advance (relocate start previous) previous nxt = relocate start nxt"
  by (simp add: advance_def relocate_def)

lemma walk_stream:
  assumes "data fd = pre @ streamBytes previous offs @ encodeSLEB (- 1) @ post"
    and "offset fd = length pre"
    and "length (data fd) < 2 ^ 32"
    and "chainFits previous offs"
    and "noTerminator previous offs"
    and "current fd = relocate start previous"
  shows "walk fd (zip (recordOffsets (length pre) previous offs) (map (relocate start) offs)) =
         Some (fd\<lparr>offset := length pre + length (streamBytes previous offs) + 1,
                  current := relocate start (last (previous # offs))\<rparr>)"
  using assms
proof (induction offs arbitrary: fd pre previous)
  case Nil
  have "next' fd = Inr (None, fd\<lparr>offset := length pre + 1\<rparr>)"
    by (rule next'_terminator [where post = post]) (use Nil in simp_all)
  moreover have "fd\<lparr>offset := length pre + 1\<rparr> =
                 fd\<lparr>offset := length pre + 1, current := relocate start previous\<rparr>"
    using Nil.prems(6) by simp
  ultimately show ?case by simp
next
  case (Cons nxt rest)
  define fd1 where
    "fd1 = fd\<lparr>offset := length pre + length (recordBytes previous nxt),
              current := relocate start nxt\<rparr>"
  have n: "next' fd = Inr (Some (relocate start nxt), fd1)"
    unfolding fd1_def advance_relocate [of start previous nxt, symmetric]
      Cons.prems(6) [symmetric]
    by (rule next'_record [where post = "streamBytes nxt rest @ encodeSLEB (- 1) @ post"])
       (use Cons.prems in simp_all)
  have w: "walk fd1 (zip (recordOffsets (length (pre @ recordBytes previous nxt)) nxt rest)
                         (map (relocate start) rest)) =
           Some (fd1\<lparr>offset := length (pre @ recordBytes previous nxt) +
                                 length (streamBytes nxt rest) + 1,
                     current := relocate start (last (nxt # rest))\<rparr>)"
    by (rule Cons.IH) (use Cons.prems in \<open>simp_all add: fd1_def\<close>)
  show ?case
    using w by (simp add: n Cons.prems(2) fd1_def add.assoc)
qed

text \<open>The bytes one call of \<open>appendSourceLocations\<close> appends for a function.\<close>

definition functionBytes ::
  "DebugSourceLocation \<Rightarrow> u32 \<Rightarrow> DebugSourceLocation list \<Rightarrow> u8 list" where
  "functionBytes start fi offs =
     encodeSLEB (uint fi) @ encodeSLEB (uint (line start)) @ encodeSLEB (uint (column start)) @
     streamBytes start offs @ encodeSLEB (- 1)"

definition headerLength :: "DebugSourceLocation \<Rightarrow> u32 \<Rightarrow> nat" where
  "headerLength start fi =
     length (encodeSLEB (uint fi)) + length (encodeSLEB (uint (line start))) +
     length (encodeSLEB (uint (column start)))"

lemma appendSourceLocations_sources:
  assumes v: "validData g" and s0: "statement start = 0" and ne: "offs \<noteq> []"
    and fit: "chainFits start offs"
  shows "\<exists>g'. appendSourceLocations start fi offs g = Inr (length (sourcesData g) mod 2 ^ 32, g') \<and>
              sourcesData g' = sourcesData g @ functionBytes start fi offs \<and>
              validData g' \<and> lexicalData g' = lexicalData g"
proof -
  define g1 where
    "g1 = (if files g = [] \<or> DebugFileRegion.filenameId (last (files g)) \<noteq> filenameId start
           then g\<lparr>files := files g @
                  [\<lparr>fromAddress = length (sourcesData g) mod 2 ^ 32,
                    filenameId = filenameId start,
                    sourceMappingUrlId = sourceMappingUrlId start\<rparr>]\<rparr>
           else g)"
  define h where
    "h = g1\<lparr>sourcesData := sourcesData g @ encodeSLEB (uint fi) @
                 encodeSLEB (uint (line start)) @ encodeSLEB (uint (column start))\<rparr>"
  obtain g2 where g2: "appendLocations start start offs h = Inr g2"
    using appendLocations_fits [OF fit] by blast
  note p = appendLocations_sources [OF g2]
  have sg1: "sourcesData g1 = sourcesData g" "validData g1 = validData g"
    "lexicalData g1 = lexicalData g"
    by (simp_all add: g1_def)
  have unf: "appendSourceLocations start fi offs g =
        bindE (appendLocations start start offs h) (\<lambda>g2.
          Inr (length (sourcesData g) mod 2 ^ 32,
               g2\<lparr>sourcesData := sourcesData g2 @ encodeSLEB (- 1)\<rparr>))"
    unfolding appendSourceLocations_def h_def g1_def
    using v s0 ne by (simp add: Let_def appendSignedLEB128_def)
  have call: "appendSourceLocations start fi offs g =
        Inr (length (sourcesData g) mod 2 ^ 32,
             g2\<lparr>sourcesData := sourcesData g2 @ encodeSLEB (- 1)\<rparr>)"
    by (simp add: unf g2 bindE_def)
  show ?thesis
    using p v by (simp add: call functionBytes_def h_def sg1)
qed

lemma appendSourceLocations_Inr:
  assumes "appendSourceLocations start fi offs g = Inr (off, g')" and "offs \<noteq> []"
  shows "validData g \<and> statement start = 0 \<and> chainFits start offs"
proof -
  have v: "validData g" and s0: "statement start = 0"
    using assms by (auto simp: appendSourceLocations_def split: if_splits)
  obtain h g2 where "appendLocations start start offs h = Inr g2"
    using assms v s0
    by (auto simp: appendSourceLocations_def Let_def bindE_def split: sum.splits)
  then have "chainFits start offs"
    using appendLocations_sources by blast
  then show ?thesis using v s0 by simp
qed

lemma uint32_int64: "- (2 ^ 63) \<le> uint (x :: u32)" "uint (x :: u32) < 2 ^ 63"
proof -
  have "0 \<le> uint x" and "- (2 ^ 63) \<le> (0 :: int)" by simp_all
  then show "- (2 ^ 63) \<le> uint x" by (rule order_trans [rotated])
  have "uint x < 2 ^ 32" using uint_bounded [of x] by simp
  moreover have "(2 :: int) ^ 32 < 2 ^ 63" by simp
  ultimately show "uint x < 2 ^ 63" by (rule less_trans)
qed

lemma newDeserializer_header:
  assumes b: "buf = pre @ encodeSLEB (uint fi) @ encodeSLEB (uint l) @ encodeSLEB (uint c) @ post"
    and len: "length buf < 2 ^ 32"
  shows "newDeserializer buf (length pre) =
         Inr \<lparr>data = buf,
              offset = length pre + length (encodeSLEB (uint fi)) +
                       length (encodeSLEB (uint l)) + length (encodeSLEB (uint c)),
              functionIndex = fi,
              current = defaultLocation\<lparr>line := l, column := c\<rparr>\<rparr>"
proof -
  define fd0 where
    "fd0 = \<lparr>data = buf, offset = length pre, functionIndex = 0, current = defaultLocation\<rparr>"
  define fd1 where "fd1 = fd0\<lparr>offset := length pre + length (encodeSLEB (uint fi))\<rparr>"
  define fd1' where "fd1' = fd1\<lparr>functionIndex := fi\<rparr>"
  define fd2 where
    "fd2 = fd1'\<lparr>offset := length (pre @ encodeSLEB (uint fi)) + length (encodeSLEB (uint l))\<rparr>"
  define fd2' where "fd2' = fd2\<lparr>current := (current fd2)\<lparr>line := l\<rparr>\<rparr>"
  define fd3 where
    "fd3 = fd2'\<lparr>offset := length (pre @ encodeSLEB (uint fi) @ encodeSLEB (uint l)) +
                           length (encodeSLEB (uint c))\<rparr>"
  have s1: "decode1Int fd0 = Inr (uint fi, fd1)"
    unfolding fd1_def
    by (rule decode1Int_encoded [where post = "encodeSLEB (uint l) @ encodeSLEB (uint c) @ post"])
       (use len uint32_int64 in \<open>simp_all add: fd0_def b\<close>)
  have s2: "decode1Int fd1' = Inr (uint l, fd2)"
    unfolding fd2_def
    by (rule decode1Int_encoded [where post = "encodeSLEB (uint c) @ post"])
       (use len uint32_int64 in \<open>simp_all add: fd0_def fd1_def fd1'_def b\<close>)
  have s3: "decode1Int fd2' = Inr (uint c, fd3)"
    unfolding fd3_def
    by (rule decode1Int_encoded [where post = post])
       (use len uint32_int64 in \<open>simp_all add: fd0_def fd1_def fd1'_def fd2_def fd2'_def b\<close>)
  show ?thesis
    unfolding newDeserializer_def fd0_def [symmetric]
    apply (simp add: s1 bindE_def fd1'_def [symmetric])
    apply (simp add: s2 fd2'_def [symmetric])
    apply (simp add: s3)
    apply (simp add: fd3_def fd2'_def fd2_def fd1'_def fd1_def fd0_def)
    done
qed

lemma decode_function:
  assumes v: "validData g" and s0: "statement start = 0" and ne: "offs \<noteq> []"
    and fit: "chainFits start offs" and nt: "noTerminator start offs"
    and r: "appendSourceLocations start fi offs g = Inr (off, g')"
    and len: "length (sourcesData g' @ post) < 2 ^ 32"
  shows "off = length (sourcesData g) \<and>
         sourcesData g' = sourcesData g @ functionBytes start fi offs \<and>
         (\<exists>fd. newDeserializer (sourcesData g' @ post) off = Inr fd \<and>
               data fd = sourcesData g' @ post \<and>
               offset fd = off + headerLength start fi \<and>
               functionIndex fd = fi \<and>
               current fd = relocate start start \<and>
               walk fd (zip (recordOffsets (off + headerLength start fi) start offs)
                            (map (relocate start) offs)) =
               Some (fd\<lparr>offset := length (sourcesData g'),
                        current := relocate start (last offs)\<rparr>))"
proof -
  from appendSourceLocations_sources [OF v s0 ne fit, of fi] r
  have off: "off = length (sourcesData g) mod 2 ^ 32"
    and src: "sourcesData g' = sourcesData g @ functionBytes start fi offs"
    by auto
  have "length (sourcesData g) \<le> length (sourcesData g' @ post)"
    by (simp add: src)
  then have off': "off = length (sourcesData g)"
    using len off by simp
  define buf where "buf = sourcesData g' @ post"
  define fd where
    "fd = \<lparr>data = buf, offset = off + headerLength start fi, functionIndex = fi,
           current = defaultLocation\<lparr>line := line start, column := column start\<rparr>\<rparr>"
  have bufeq: "buf = sourcesData g @ encodeSLEB (uint fi) @ encodeSLEB (uint (line start)) @
                 encodeSLEB (uint (column start)) @
                 (streamBytes start offs @ encodeSLEB (- 1) @ post)"
    by (simp add: buf_def src functionBytes_def)
  have nd: "newDeserializer buf off = Inr fd"
    unfolding off' fd_def
    using newDeserializer_header [OF bufeq] len
    by (simp add: buf_def headerLength_def add.assoc)
  have cur: "current fd = relocate start start"
    using s0 by (simp add: fd_def relocate_def defaultLocation_def)
  have w: "walk fd (zip (recordOffsets (length (sourcesData g @ encodeSLEB (uint fi) @
                encodeSLEB (uint (line start)) @ encodeSLEB (uint (column start)))) start offs)
              (map (relocate start) offs)) =
           Some (fd\<lparr>offset := length (sourcesData g @ encodeSLEB (uint fi) @
                encodeSLEB (uint (line start)) @ encodeSLEB (uint (column start))) +
                length (streamBytes start offs) + 1,
                    current := relocate start (last (start # offs))\<rparr>)"
    by (rule walk_stream [where post = post])
       (use fit nt cur len in \<open>simp_all add: fd_def bufeq [symmetric] off' headerLength_def\<close>,
        simp add: buf_def)
  have l1: "length (sourcesData g @ encodeSLEB (uint fi) @
                encodeSLEB (uint (line start)) @ encodeSLEB (uint (column start))) =
            off + headerLength start fi"
    by (simp add: off' headerLength_def)
  have l2: "off + headerLength start fi + length (streamBytes start offs) + 1 =
            length (sourcesData g')"
    by (simp add: off' headerLength_def src functionBytes_def encodeSLEB_minus1)
  have w': "walk fd (zip (recordOffsets (off + headerLength start fi) start offs)
                       (map (relocate start) offs)) =
            Some (fd\<lparr>offset := length (sourcesData g'),
                     current := relocate start (last offs)\<rparr>)"
    using w ne unfolding l1 l2 by simp
  show ?thesis
    using off' src nd cur w' by (auto simp: buf_def fd_def)
qed

section \<open>Round trip of one function's locations\<close>

text \<open>
  C1 (amended). Let \<open>start # offs\<close> be a list of at least two locations whose first
  has statement 0, whose addresses do not decrease, and whose consecutive deltas all
  fit in 32 bits (what \<open>delta\<close> asserts). On a valid generator
  \<open>appendSourceLocations\<close> succeeds, and in any buffer below \<open>2 ^ 32\<close> bytes that
  begins with the generator's sources, a deserializer constructed at the returned offset
  has the function index given, has as header location \<open>start\<close> with address 0 and
  with the two ids 0, and its \<open>next()\<close> calls return, in order, each later location
  with its address taken relative to \<open>start\<close> and the two ids 0, and then none. So the
  list is reproduced exactly when \<open>start\<close> has address 0 and all ids are 0.
\<close>

theorem appendSourceLocations_roundtrip:
  assumes "validData g" and "statement start = 0" and "offs \<noteq> []"
    and "chainFits start offs" and "sorted (map address (start # offs))"
  shows "\<exists>off g'. appendSourceLocations start fi offs g = Inr (off, g') \<and>
           (\<forall>post. length (sourcesData g' @ post) < 2 ^ 32 \<longrightarrow>
              (\<exists>fd. newDeserializer (sourcesData g' @ post) off = Inr fd \<and>
                    functionIndex fd = fi \<and>
                    current fd = start\<lparr>address := 0, filenameId := 0, sourceMappingUrlId := 0\<rparr> \<and>
                    yields fd (map (relocate start) offs) \<and>
                    (address start = 0 \<and>
                     (\<forall>l \<in> set (start # offs). filenameId l = 0 \<and> sourceMappingUrlId l = 0) \<longrightarrow>
                     current fd = start \<and> yields fd offs)))"
proof -
  obtain g' where call:
    "appendSourceLocations start fi offs g = Inr (length (sourcesData g) mod 2 ^ 32, g')"
    using appendSourceLocations_sources [OF assms(1-4)] by blast
  have nt: "noTerminator start offs"
    using assms(5) by (rule sorted_noTerminator)
  have "\<exists>fd. newDeserializer (sourcesData g' @ post) (length (sourcesData g) mod 2 ^ 32) = Inr fd \<and>
             functionIndex fd = fi \<and>
             current fd = start\<lparr>address := 0, filenameId := 0, sourceMappingUrlId := 0\<rparr> \<and>
             yields fd (map (relocate start) offs) \<and>
             (address start = 0 \<and>
              (\<forall>l \<in> set (start # offs). filenameId l = 0 \<and> sourceMappingUrlId l = 0) \<longrightarrow>
              current fd = start \<and> yields fd offs)"
    if len: "length (sourcesData g' @ post) < 2 ^ 32" for post
  proof -
    from decode_function [OF assms(1-4) nt call len]
    obtain fd where
      nd: "newDeserializer (sourcesData g' @ post) (length (sourcesData g) mod 2 ^ 32) = Inr fd"
      and fi: "functionIndex fd = fi"
      and cur: "current fd = relocate start start"
      and w: "walk fd (zip (recordOffsets (length (sourcesData g) mod 2 ^ 32 + headerLength start fi)
                               start offs)
                          (map (relocate start) offs)) =
              Some (fd\<lparr>offset := length (sourcesData g'),
                       current := relocate start (last offs)\<rparr>)"
      by blast
    have len_eq: "length (recordOffsets n start offs) = length offs" for n
      by (induction offs arbitrary: n start) simp_all
    have y: "yields fd (map (relocate start) offs)"
      using walk_yields [OF w] by (simp add: len_eq)
    have same: "map (relocate start) offs = offs \<and> relocate start start = start"
      if "address start = 0"
        and "\<forall>l \<in> set (start # offs). filenameId l = 0 \<and> sourceMappingUrlId l = 0"
    proof -
      have "relocate start l = l" if "l \<in> set (start # offs)" for l
        using that \<open>address start = 0\<close>
          \<open>\<forall>l \<in> set (start # offs). filenameId l = 0 \<and> sourceMappingUrlId l = 0\<close>
        by (cases l) (auto simp: relocate_def)
      then show ?thesis by (simp add: map_idI)
    qed
    show ?thesis
      using nd fi cur y same by (auto simp: relocate_def)
  qed
  then show ?thesis using call by blast
qed

theorem appendSourceLocations_roundtrip_witness:
  "validData \<lparr>validData = True, sourcesData = [], lexicalData = [0x7F, 0], files = []\<rparr> \<and>
   statement \<lparr>address = 0, filenameId = 0, sourceMappingUrlId = 0, line = 10, column = 5,
              statement = 0\<rparr> = 0 \<and>
   chainFits \<lparr>address = 0, filenameId = 0, sourceMappingUrlId = 0, line = 10, column = 5,
              statement = 0\<rparr>
     [\<lparr>address = 3, filenameId = 0, sourceMappingUrlId = 0, line = 10, column = 9,
       statement = 1\<rparr>] \<and>
   sorted (map address
     [\<lparr>address = 0, filenameId = 0, sourceMappingUrlId = 0, line = 10, column = 5,
       statement = 0\<rparr>,
      \<lparr>address = 3, filenameId = 0, sourceMappingUrlId = 0, line = 10, column = 9,
       statement = 1\<rparr>]) \<and>
   appendSourceLocations
     \<lparr>address = 0, filenameId = 0, sourceMappingUrlId = 0, line = 10, column = 5,
      statement = 0\<rparr> 0
     [\<lparr>address = 3, filenameId = 0, sourceMappingUrlId = 0, line = 10, column = 9,
       statement = 1\<rparr>]
     \<lparr>validData = True, sourcesData = [], lexicalData = [0x7F, 0], files = []\<rparr> =
   Inr (0, \<lparr>validData = True, sourcesData = [0, 10, 5, 3, 1, 4, 1, 0x7F],
            lexicalData = [0x7F, 0],
            files = [\<lparr>fromAddress = 0, filenameId = 0, sourceMappingUrlId = 0\<rparr>]\<rparr>) \<and>
   (\<exists>fd. newDeserializer [0, 10, 5, 3, 1, 4, 1, 0x7F] 0 = Inr fd \<and>
         functionIndex fd = 0 \<and>
         current fd = \<lparr>address = 0, filenameId = 0, sourceMappingUrlId = 0, line = 10,
                       column = 5, statement = 0\<rparr> \<and>
         yields fd [\<lparr>address = 3, filenameId = 0, sourceMappingUrlId = 0, line = 10,
                      column = 9, statement = 1\<rparr>])"
proof -
  let ?g = "\<lparr>validData = True, sourcesData = [], lexicalData = [0x7F, 0 :: u8], files = []\<rparr>"
  let ?s = "\<lparr>address = 0, filenameId = 0, sourceMappingUrlId = 0, line = 10, column = 5,
             statement = 0 :: u32\<rparr>"
  let ?l = "\<lparr>address = 3, filenameId = 0, sourceMappingUrlId = 0, line = 10, column = 9,
             statement = 1 :: u32\<rparr>"
  let ?g' = "\<lparr>validData = True, sourcesData = [0, 10, 5, 3, 1, 4, 1, 0x7F :: u8],
              lexicalData = [0x7F, 0 :: u8],
              files = [\<lparr>fromAddress = 0, filenameId = 0, sourceMappingUrlId = 0\<rparr>]\<rparr>"
  have h1: "validData ?g" by simp
  have h2: "statement ?s = 0" by simp
  have h3: "[?l] \<noteq> []" by simp
  have h4: "chainFits ?s [?l]" by (simp add: deltasFit_def fits32_def)
  have h5: "sorted (map address (?s # [?l]))" by simp
  have call: "appendSourceLocations ?s 0 [?l] ?g = Inr (0, ?g')"
    by (simp add: appendSourceLocations_def appendLocation_def delta_def bindE_def Let_def
        appendSignedLEB128_def encodeSLEB_small)
  from appendSourceLocations_roundtrip [OF h1 h2 h3 h4 h5, of 0] call
  have "\<forall>post. length (sourcesData ?g' @ post) < 2 ^ 32 \<longrightarrow>
          (\<exists>fd. newDeserializer (sourcesData ?g' @ post) 0 = Inr fd \<and>
                functionIndex fd = 0 \<and>
                current fd = ?s\<lparr>address := 0, filenameId := 0, sourceMappingUrlId := 0\<rparr> \<and>
                yields fd (map (relocate ?s) [?l]) \<and>
                (address ?s = 0 \<and>
                 (\<forall>l \<in> set (?s # [?l]). filenameId l = 0 \<and> sourceMappingUrlId l = 0) \<longrightarrow>
                 current fd = ?s \<and> yields fd [?l]))"
    by auto
  then have "length (sourcesData ?g' @ []) < 2 ^ 32 \<longrightarrow>
          (\<exists>fd. newDeserializer (sourcesData ?g' @ []) 0 = Inr fd \<and>
                functionIndex fd = 0 \<and>
                current fd = ?s\<lparr>address := 0, filenameId := 0, sourceMappingUrlId := 0\<rparr> \<and>
                yields fd (map (relocate ?s) [?l]) \<and>
                (address ?s = 0 \<and>
                 (\<forall>l \<in> set (?s # [?l]). filenameId l = 0 \<and> sourceMappingUrlId l = 0) \<longrightarrow>
                 current fd = ?s \<and> yields fd [?l]))"
    by (rule spec)
  then have "\<exists>fd. newDeserializer [0, 10, 5, 3, 1, 4, 1, 0x7F] 0 = Inr fd \<and>
                functionIndex fd = 0 \<and> current fd = ?s \<and> yields fd [?l]"
    by auto
  then show ?thesis using h1 h2 h4 h5 call by simp
qed

text \<open>
  C1 as stated fails. From a new generator, take the list of the two locations
  (address 5, file 7, line 10, column 5, statement 0) and (address 8, file 7, line 10,
  column 9, statement 1): the header location decoded has address 0 and file 0, and
  \<open>next()\<close> returns address 3 and file 0. For the one-element list nothing is
  written, so that the deserializer constructed at the returned offset reads past the
  end of the buffer. And for the addresses 0 and \<open>2 ^ 31\<close> the assertion of \<open>delta\<close>
  fails.
\<close>

theorem appendSourceLocations_roundtrip_counterexample:
  "statement \<lparr>address = 5, filenameId = 7, sourceMappingUrlId = 0, line = 10, column = 5,
              statement = 0\<rparr> = 0 \<and>
   sorted (map address
     [\<lparr>address = 5, filenameId = 7, sourceMappingUrlId = 0, line = 10, column = 5,
       statement = 0\<rparr>,
      \<lparr>address = 8, filenameId = 7, sourceMappingUrlId = 0, line = 10, column = 9,
       statement = 1\<rparr>]) \<and>
   newDebugInfoGenerator =
     Inr \<lparr>validData = True, sourcesData = [], lexicalData = [0x7F, 0], files = []\<rparr> \<and>
   appendSourceLocations
     \<lparr>address = 5, filenameId = 7, sourceMappingUrlId = 0, line = 10, column = 5,
      statement = 0\<rparr> 0
     [\<lparr>address = 8, filenameId = 7, sourceMappingUrlId = 0, line = 10, column = 9,
       statement = 1\<rparr>]
     \<lparr>validData = True, sourcesData = [], lexicalData = [0x7F, 0], files = []\<rparr> =
   Inr (0, \<lparr>validData = True, sourcesData = [0, 10, 5, 3, 1, 4, 1, 0x7F],
            lexicalData = [0x7F, 0],
            files = [\<lparr>fromAddress = 0, filenameId = 7, sourceMappingUrlId = 0\<rparr>]\<rparr>) \<and>
   newDeserializer [0, 10, 5, 3, 1, 4, 1, 0x7F] 0 =
     Inr \<lparr>data = [0, 10, 5, 3, 1, 4, 1, 0x7F], offset = 3, functionIndex = 0,
          current = \<lparr>address = 0, filenameId = 0, sourceMappingUrlId = 0, line = 10,
                      column = 5, statement = 0\<rparr>\<rparr> \<and>
   \<lparr>address = 0, filenameId = 0, sourceMappingUrlId = 0, line = 10, column = 5,
    statement = 0\<rparr> \<noteq>
   \<lparr>address = 5, filenameId = 7, sourceMappingUrlId = 0, line = 10, column = 5,
    statement = (0 :: u32)\<rparr> \<and>
   next' \<lparr>data = [0, 10, 5, 3, 1, 4, 1, 0x7F], offset = 3, functionIndex = 0,
          current = \<lparr>address = 0, filenameId = 0, sourceMappingUrlId = 0, line = 10,
                      column = 5, statement = 0\<rparr>\<rparr> =
     Inr (Some \<lparr>address = 3, filenameId = 0, sourceMappingUrlId = 0, line = 10, column = 9,
                statement = 1\<rparr>,
          \<lparr>data = [0, 10, 5, 3, 1, 4, 1, 0x7F], offset = 7, functionIndex = 0,
           current = \<lparr>address = 3, filenameId = 0, sourceMappingUrlId = 0, line = 10,
                       column = 9, statement = 1\<rparr>\<rparr>) \<and>
   \<lparr>address = 3, filenameId = 0, sourceMappingUrlId = 0, line = 10, column = 9,
    statement = 1\<rparr> \<noteq>
   \<lparr>address = 8, filenameId = 7, sourceMappingUrlId = 0, line = 10, column = 9,
    statement = (1 :: u32)\<rparr> \<and>
   appendSourceLocations
     \<lparr>address = 5, filenameId = 7, sourceMappingUrlId = 0, line = 10, column = 5,
      statement = 0\<rparr> 0 []
     \<lparr>validData = True, sourcesData = [], lexicalData = [0x7F, 0], files = []\<rparr> =
   Inr (0, \<lparr>validData = True, sourcesData = [], lexicalData = [0x7F, 0], files = []\<rparr>) \<and>
   newDeserializer [] 0 = Inl ReadPastEnd \<and>
   sorted (map address
     [\<lparr>address = 0, filenameId = 0, sourceMappingUrlId = 0, line = 1, column = 1,
       statement = 0\<rparr>,
      \<lparr>address = 0x80000000, filenameId = 0, sourceMappingUrlId = 0, line = 1, column = 1,
       statement = 0\<rparr>]) \<and>
   appendSourceLocations
     \<lparr>address = 0, filenameId = 0, sourceMappingUrlId = 0, line = 1, column = 1,
      statement = 0\<rparr> 0
     [\<lparr>address = 0x80000000, filenameId = 0, sourceMappingUrlId = 0, line = 1, column = 1,
       statement = 0\<rparr>]
     \<lparr>validData = True, sourcesData = [], lexicalData = [0x7F, 0], files = []\<rparr> =
   Inl AssertionFailure"
proof -
  have gen: "newDebugInfoGenerator =
     Inr \<lparr>validData = True, sourcesData = [], lexicalData = [0x7F, 0], files = []\<rparr>"
    by (simp add: newDebugInfoGenerator_def kEmptyLexicalDataOffset_def appendSignedLEB128_def
        encodeSLEB_small)
  have call: "appendSourceLocations
     \<lparr>address = 5, filenameId = 7, sourceMappingUrlId = 0, line = 10, column = 5,
      statement = 0\<rparr> 0
     [\<lparr>address = 8, filenameId = 7, sourceMappingUrlId = 0, line = 10, column = 9,
       statement = 1\<rparr>]
     \<lparr>validData = True, sourcesData = [], lexicalData = [0x7F, 0], files = []\<rparr> =
   Inr (0, \<lparr>validData = True, sourcesData = [0, 10, 5, 3, 1, 4, 1, 0x7F],
            lexicalData = [0x7F, 0],
            files = [\<lparr>fromAddress = 0, filenameId = 7, sourceMappingUrlId = 0\<rparr>]\<rparr>)"
    by (simp add: appendSourceLocations_def appendLocation_def delta_def bindE_def Let_def
        appendSignedLEB128_def encodeSLEB_small)
  have hdr: "newDeserializer [0, 10, 5, 3, 1, 4, 1, 0x7F] 0 =
     Inr \<lparr>data = [0, 10, 5, 3, 1, 4, 1, 0x7F], offset = 3, functionIndex = 0,
          current = \<lparr>address = 0, filenameId = 0, sourceMappingUrlId = 0, line = 10,
                      column = 5, statement = 0\<rparr>\<rparr>"
    by (simp add: newDeserializer_def decode1Int_def readSignedLEB128_def bindE_def
        defaultLocation_def)
  have nxt: "next' \<lparr>data = [0, 10, 5, 3, 1, 4, 1, 0x7F], offset = 3, functionIndex = 0,
          current = \<lparr>address = 0, filenameId = 0, sourceMappingUrlId = 0, line = 10,
                      column = 5, statement = 0\<rparr>\<rparr> =
     Inr (Some \<lparr>address = 3, filenameId = 0, sourceMappingUrlId = 0, line = 10, column = 9,
                statement = 1\<rparr>,
          \<lparr>data = [0, 10, 5, 3, 1, 4, 1, 0x7F], offset = 7, functionIndex = 0,
           current = \<lparr>address = 3, filenameId = 0, sourceMappingUrlId = 0, line = 10,
                       column = 9, statement = 1\<rparr>\<rparr>)"
    by (simp add: next'_def decode1Int_def readSignedLEB128_def bindE_def Let_def)
  have single: "appendSourceLocations
     \<lparr>address = 5, filenameId = 7, sourceMappingUrlId = 0, line = 10, column = 5,
      statement = 0\<rparr> 0 []
     \<lparr>validData = True, sourcesData = [], lexicalData = [0x7F, 0], files = []\<rparr> =
   Inr (0, \<lparr>validData = True, sourcesData = [], lexicalData = [0x7F, 0], files = []\<rparr>)"
    by (simp add: appendSourceLocations_def)
  have past: "newDeserializer [] 0 = Inl ReadPastEnd"
    by (simp add: newDeserializer_def decode1Int_def readSignedLEB128_def bindE_def)
  have wide: "appendSourceLocations
     \<lparr>address = 0, filenameId = 0, sourceMappingUrlId = 0, line = 1, column = 1,
      statement = 0\<rparr> 0
     [\<lparr>address = 0x80000000, filenameId = 0, sourceMappingUrlId = 0, line = 1, column = 1,
       statement = 0\<rparr>]
     \<lparr>validData = True, sourcesData = [], lexicalData = [0x7F, 0], files = []\<rparr> =
   Inl AssertionFailure"
    by (simp add: appendSourceLocations_def appendLocation_def delta_def bindE_def Let_def)
  show ?thesis
    unfolding gen call hdr nxt single past wide by simp
qed

section \<open>Negative address deltas\<close>

text \<open>
  C7. The address delta is a signed integer, and a location whose address is smaller than
  that of the location before it is encoded and decoded again: the function with header
  (line 1, column 1) and the locations (address 5, line 2, column 1, statement 1) and
  (address 3, line 3, column 1, statement 2) is written as the bytes below, with the
  address delta \<open>- 2\<close> as \<open>0x7E\<close>, and the deserializer returns both locations and then
  none.
\<close>

theorem negative_address_delta_roundtrip:
  "address \<lparr>address = 3, filenameId = 0, sourceMappingUrlId = 0, line = 3, column = 1,
            statement = 2 :: u32\<rparr> <
   address \<lparr>address = 5, filenameId = 0, sourceMappingUrlId = 0, line = 2, column = 1,
            statement = 1 :: u32\<rparr> \<and>
   appendSourceLocations
     \<lparr>address = 0, filenameId = 0, sourceMappingUrlId = 0, line = 1, column = 1,
      statement = 0\<rparr> 0
     [\<lparr>address = 5, filenameId = 0, sourceMappingUrlId = 0, line = 2, column = 1,
       statement = 1\<rparr>,
      \<lparr>address = 3, filenameId = 0, sourceMappingUrlId = 0, line = 3, column = 1,
       statement = 2\<rparr>]
     \<lparr>validData = True, sourcesData = [], lexicalData = [0x7F, 0], files = []\<rparr> =
   Inr (0, \<lparr>validData = True,
            sourcesData = [0, 1, 1, 5, 3, 0, 1, 0x7E, 3, 0, 1, 0x7F],
            lexicalData = [0x7F, 0],
            files = [\<lparr>fromAddress = 0, filenameId = 0, sourceMappingUrlId = 0\<rparr>]\<rparr>) \<and>
   (case newDeserializer [0, 1, 1, 5, 3, 0, 1, 0x7E, 3, 0, 1, 0x7F] 0 of
      Inl e \<Rightarrow> False
    | Inr fd \<Rightarrow>
        yields fd
          [\<lparr>address = 5, filenameId = 0, sourceMappingUrlId = 0, line = 2, column = 1,
            statement = 1\<rparr>,
           \<lparr>address = 3, filenameId = 0, sourceMappingUrlId = 0, line = 3, column = 1,
            statement = 2\<rparr>])"
proof -
  have call: "appendSourceLocations
     \<lparr>address = 0, filenameId = 0, sourceMappingUrlId = 0, line = 1, column = 1,
      statement = 0\<rparr> 0
     [\<lparr>address = 5, filenameId = 0, sourceMappingUrlId = 0, line = 2, column = 1,
       statement = 1\<rparr>,
      \<lparr>address = 3, filenameId = 0, sourceMappingUrlId = 0, line = 3, column = 1,
       statement = 2\<rparr>]
     \<lparr>validData = True, sourcesData = [], lexicalData = [0x7F, 0], files = []\<rparr> =
   Inr (0, \<lparr>validData = True,
            sourcesData = [0, 1, 1, 5, 3, 0, 1, 0x7E, 3, 0, 1, 0x7F],
            lexicalData = [0x7F, 0],
            files = [\<lparr>fromAddress = 0, filenameId = 0, sourceMappingUrlId = 0\<rparr>]\<rparr>)"
    by (simp add: appendSourceLocations_def appendLocation_def delta_def bindE_def Let_def
        appendSignedLEB128_def encodeSLEB_small)
  have hdr: "newDeserializer [0, 1, 1, 5, 3, 0, 1, 0x7E, 3, 0, 1, 0x7F] 0 =
     Inr \<lparr>data = [0, 1, 1, 5, 3, 0, 1, 0x7E, 3, 0, 1, 0x7F], offset = 3, functionIndex = 0,
          current = \<lparr>address = 0, filenameId = 0, sourceMappingUrlId = 0, line = 1,
                      column = 1, statement = 0\<rparr>\<rparr>"
    by (simp add: newDeserializer_def decode1Int_def readSignedLEB128_def bindE_def
        defaultLocation_def)
  have y: "yields \<lparr>data = [0, 1, 1, 5, 3, 0, 1, 0x7E, 3, 0, 1, 0x7F], offset = 3,
                  functionIndex = 0,
                  current = \<lparr>address = 0, filenameId = 0, sourceMappingUrlId = 0, line = 1,
                      column = 1, statement = 0\<rparr>\<rparr>
          [\<lparr>address = 5, filenameId = 0, sourceMappingUrlId = 0, line = 2, column = 1,
            statement = 1\<rparr>,
           \<lparr>address = 3, filenameId = 0, sourceMappingUrlId = 0, line = 3, column = 1,
            statement = 2\<rparr>]"
    by (simp add: next'_def decode1Int_def readSignedLEB128_def bindE_def Let_def)
  show ?thesis
    unfolding call hdr using y by simp
qed

section \<open>The statement-presence bit\<close>



section \<open>The file-regions table\<close>

text \<open>
  A sequence of calls on a generator: each call is one of the two append operations, and
  \<open>generate cs\<close> is the generator after the calls \<open>cs\<close> on a new generator.
\<close>

datatype call =
  AppendSourceLocations DebugSourceLocation u32 "DebugSourceLocation list"
| AppendLexicalData "u32 option" "u8 list list"

fun runCall :: "call \<Rightarrow> DebugInfoGenerator \<Rightarrow> error + DebugInfoGenerator" where
  "runCall (AppendSourceLocations start fi offs) g =
     bindE (appendSourceLocations start fi offs g) (\<lambda>(off, g'). Inr g')"
| "runCall (AppendLexicalData parentFunc names) g =
     bindE (appendLexicalData parentFunc names g) (\<lambda>(off, g'). Inr g')"

fun runCalls :: "call list \<Rightarrow> DebugInfoGenerator \<Rightarrow> error + DebugInfoGenerator" where
  "runCalls [] g = Inr g"
| "runCalls (c # cs) g = bindE (runCall c g) (runCalls cs)"

definition generate :: "call list \<Rightarrow> error + DebugInfoGenerator" where
  "generate cs = bindE newDebugInfoGenerator (runCalls cs)"

text \<open>The generator after the header of a function has been written.\<close>

definition withHeader :: "DebugSourceLocation \<Rightarrow> u32 \<Rightarrow> DebugInfoGenerator \<Rightarrow> DebugInfoGenerator" where
  "withHeader start fi g =
     (if files g = [] \<or> DebugFileRegion.filenameId (last (files g)) \<noteq> filenameId start
      then g\<lparr>files := files g @
             [\<lparr>fromAddress = length (sourcesData g) mod 2 ^ 32,
               filenameId = filenameId start,
               sourceMappingUrlId = sourceMappingUrlId start\<rparr>]\<rparr>
      else g)
     \<lparr>sourcesData := sourcesData g @ encodeSLEB (uint fi) @ encodeSLEB (uint (line start)) @
                       encodeSLEB (uint (column start))\<rparr>"

lemma appendSourceLocations_unfold:
  assumes "appendSourceLocations start fi offs g = Inr (off, g')" and "offs \<noteq> []"
  shows "\<exists>g2. appendLocations start start offs (withHeader start fi g) = Inr g2 \<and>
              g' = g2\<lparr>sourcesData := sourcesData g2 @ encodeSLEB (- 1)\<rparr> \<and>
              off = length (sourcesData g) mod 2 ^ 32"
proof -
  have v: "validData g" and s0: "statement start = 0"
    using appendSourceLocations_Inr [OF assms] by simp_all
  have "appendSourceLocations start fi offs g =
        bindE (appendLocations start start offs (withHeader start fi g)) (\<lambda>g2.
          Inr (length (sourcesData g) mod 2 ^ 32,
               g2\<lparr>sourcesData := sourcesData g2 @ encodeSLEB (- 1)\<rparr>))"
    unfolding appendSourceLocations_def withHeader_def
    using v s0 assms(2) by (simp add: Let_def appendSignedLEB128_def)
  then show ?thesis
    using assms(1) by (auto simp: bindE_def split: sum.splits)
qed

lemma appendSourceLocations_empty:
  "appendSourceLocations start fi [] g = Inr (off, g') \<Longrightarrow> g' = g"
  by (auto simp: appendSourceLocations_def Let_def split: if_splits)

text \<open>The regions a run of the loop appends lie, in order, between the old and new size.\<close>

lemma appendLocations_files:
  assumes "appendLocations start previous offs g = Inr g'"
  shows "\<exists>new. files g' = files g @ new \<and>
           (length (sourcesData g') < 2 ^ 32 \<longrightarrow>
              sorted (map fromAddress new) \<and>
              (\<forall>r \<in> set new. length (sourcesData g) \<le> fromAddress r \<and>
                               fromAddress r \<le> length (sourcesData g')))"
  using assms
proof (induction offs arbitrary: previous g)
  case Nil
  then show ?case by simp
next
  case (Cons nxt rest)
  from Cons.prems obtain g1 where
    s: "appendLocation start previous nxt g = Inr g1" and
    r: "appendLocations start nxt rest g1 = Inr g'"
    by (auto simp: bindE_def split: sum.splits)
  from s have g1: "files g1 = files g @ newRegion start previous nxt (length (sourcesData g))"
    "sourcesData g1 = sourcesData g @ recordBytes previous nxt"
    by (simp_all add: appendLocation_Inr)
  from Cons.IH [OF r] obtain new where
    new: "files g' = files g1 @ new" and
    ord: "length (sourcesData g') < 2 ^ 32 \<longrightarrow>
            sorted (map fromAddress new) \<and>
            (\<forall>r \<in> set new. length (sourcesData g1) \<le> fromAddress r \<and>
                             fromAddress r \<le> length (sourcesData g'))"
    by blast
  have grow: "length (sourcesData g1) \<le> length (sourcesData g')"
    using appendLocations_sources [OF r] by simp
  let ?reg = "newRegion start previous nxt (length (sourcesData g))"
  have f: "files g' = files g @ (?reg @ new)"
    by (simp add: new g1)
  have "sorted (map fromAddress (?reg @ new)) \<and>
        (\<forall>r \<in> set (?reg @ new). length (sourcesData g) \<le> fromAddress r \<and>
                                   fromAddress r \<le> length (sourcesData g'))"
    if len: "length (sourcesData g') < 2 ^ 32"
  proof -
    have m: "length (sourcesData g) mod 2 ^ 32 = length (sourcesData g)"
      using len grow g1(2) by simp
    have le: "length (sourcesData g) \<le> length (sourcesData g1)"
      by (simp add: g1)
    have a: "\<forall>r \<in> set ?reg. fromAddress r = length (sourcesData g)"
      using m by (simp add: newRegion_def)
    have b: "\<forall>r \<in> set new. length (sourcesData g1) \<le> fromAddress r \<and>
                            fromAddress r \<le> length (sourcesData g')"
      and c: "sorted (map fromAddress new)"
      using ord len by simp_all
    have "sorted (map fromAddress ?reg)"
      by (simp add: newRegion_def)
    then have "sorted (map fromAddress (?reg @ new))"
      using a b c le by (auto simp: sorted_append newRegion_def)
    moreover have "\<forall>r \<in> set (?reg @ new). length (sourcesData g) \<le> fromAddress r \<and>
                                   fromAddress r \<le> length (sourcesData g')"
      using a b le grow by (auto simp: newRegion_def split: if_splits)
    ultimately show ?thesis by simp
  qed
  then show ?case using f by blast
qed

lemma appendSourceLocations_files:
  assumes "appendSourceLocations start fi offs g = Inr (off, g')"
  shows "validData g \<and> validData g' \<and> lexicalData g' = lexicalData g \<and>
         (\<exists>bytes. sourcesData g' = sourcesData g @ bytes) \<and>
         (\<exists>new. files g' = files g @ new \<and>
           (length (sourcesData g') < 2 ^ 32 \<longrightarrow>
              sorted (map fromAddress new) \<and>
              (\<forall>r \<in> set new. length (sourcesData g) \<le> fromAddress r \<and>
                               fromAddress r \<le> length (sourcesData g'))))"
proof (cases "offs = []")
  case True
  then have "g' = g" using assms appendSourceLocations_empty by blast
  moreover have "validData g"
    using assms by (auto simp: appendSourceLocations_def split: if_splits)
  ultimately show ?thesis by simp
next
  case False
  from appendSourceLocations_unfold [OF assms False] obtain g2 where
    r: "appendLocations start start offs (withHeader start fi g) = Inr g2" and
    g': "g' = g2\<lparr>sourcesData := sourcesData g2 @ encodeSLEB (- 1)\<rparr>"
    by blast
  have v: "validData g" using appendSourceLocations_Inr [OF assms False] by simp
  note src = appendLocations_sources [OF r]
  let ?hdr = "encodeSLEB (uint fi) @ encodeSLEB (uint (line start)) @
              encodeSLEB (uint (column start))"
  let ?reg = "if files g = [] \<or> DebugFileRegion.filenameId (last (files g)) \<noteq> filenameId start
              then [\<lparr>fromAddress = length (sourcesData g) mod 2 ^ 32,
                     filenameId = filenameId start,
                     sourceMappingUrlId = sourceMappingUrlId start\<rparr>]
              else []"
  have h: "sourcesData (withHeader start fi g) = sourcesData g @ ?hdr"
    "validData (withHeader start fi g) = validData g"
    "lexicalData (withHeader start fi g) = lexicalData g"
    "files (withHeader start fi g) = files g @ ?reg"
    by (simp_all add: withHeader_def)
  from appendLocations_files [OF r] obtain new where
    new: "files g2 = files (withHeader start fi g) @ new" and
    ord: "length (sourcesData g2) < 2 ^ 32 \<longrightarrow>
            sorted (map fromAddress new) \<and>
            (\<forall>r \<in> set new. length (sourcesData (withHeader start fi g)) \<le> fromAddress r \<and>
                             fromAddress r \<le> length (sourcesData g2))"
    by blast
  have sg': "sourcesData g' = sourcesData g @ (?hdr @ streamBytes start offs @ encodeSLEB (- 1))"
    using src by (simp add: g' h)
  have f: "files g' = files g @ (?reg @ new)"
    by (simp add: g' new h)
  have "sorted (map fromAddress (?reg @ new)) \<and>
        (\<forall>r \<in> set (?reg @ new). length (sourcesData g) \<le> fromAddress r \<and>
                                   fromAddress r \<le> length (sourcesData g'))"
    if len: "length (sourcesData g') < 2 ^ 32"
  proof -
    have l2: "length (sourcesData g2) < 2 ^ 32" "length (sourcesData g2) \<le> length (sourcesData g')"
      using len by (simp_all add: g')
    have m: "length (sourcesData g) mod 2 ^ 32 = length (sourcesData g)"
      using len sg' by simp
    have le: "length (sourcesData g) \<le> length (sourcesData (withHeader start fi g))"
      by (simp add: h)
    have b: "\<forall>r \<in> set new. length (sourcesData (withHeader start fi g)) \<le> fromAddress r \<and>
                            fromAddress r \<le> length (sourcesData g2)"
      and c: "sorted (map fromAddress new)"
      using ord l2 by simp_all
    have "sorted (map fromAddress (?reg @ new))"
      using b c le m by (auto simp: sorted_append)
    moreover have "\<forall>r \<in> set (?reg @ new). length (sourcesData g) \<le> fromAddress r \<and>
                                   fromAddress r \<le> length (sourcesData g')"
      using b le l2 m sg' by (auto split: if_splits)
    ultimately show ?thesis by simp
  qed
  then show ?thesis
    using v src f sg' by (simp add: g' h)
qed

lemma foldl_appendString: "\<exists>ext. foldl appendString l names = l @ ext"
proof (induction names arbitrary: l)
  case Nil
  then show ?case by simp
next
  case (Cons n ns)
  obtain ext where ext: "foldl appendString (appendString l n) ns = appendString l n @ ext"
    using Cons.IH by blast
  have "appendString l n @ ext = l @ (encodeSLEB (int (length n)) @ n @ ext)"
    by (simp add: appendString_def appendSignedLEB128_def)
  then have "foldl appendString l (n # ns) = l @ (encodeSLEB (int (length n)) @ n @ ext)"
    using ext by simp
  then show ?case by blast
qed

lemma appendLexicalData_effect:
  assumes "appendLexicalData parentFunc names g = Inr (off, g')"
  shows "validData g \<and> validData g' \<and> sourcesData g' = sourcesData g \<and> files g' = files g \<and>
         (\<exists>lex. lexicalData g' = lexicalData g @ lex)"
proof -
  obtain ext where
    "foldl appendString
       (appendSignedLEB128
         (appendSignedLEB128 (lexicalData g)
           (case parentFunc of Some p \<Rightarrow> uint p | None \<Rightarrow> - 1))
         (int (length names))) names =
     lexicalData g @ ext"
    using foldl_appendString [of "appendSignedLEB128
         (appendSignedLEB128 (lexicalData g)
           (case parentFunc of Some p \<Rightarrow> uint p | None \<Rightarrow> - 1))
         (int (length names))" names]
    by (auto simp: appendSignedLEB128_def)
  then show ?thesis
    using assms by (auto simp: appendLexicalData_def Let_def split: if_splits)
qed

lemma runCall_effect:
  assumes "runCall c g = Inr g'"
  shows "validData g \<and> validData g' \<and>
         (\<exists>bytes. sourcesData g' = sourcesData g @ bytes) \<and>
         (\<exists>lex. lexicalData g' = lexicalData g @ lex) \<and>
         (\<exists>new. files g' = files g @ new \<and>
           (length (sourcesData g') < 2 ^ 32 \<longrightarrow>
              sorted (map fromAddress new) \<and>
              (\<forall>r \<in> set new. length (sourcesData g) \<le> fromAddress r \<and>
                               fromAddress r \<le> length (sourcesData g'))))"
proof (cases c)
  case (AppendSourceLocations start fi offs)
  then obtain off where "appendSourceLocations start fi offs g = Inr (off, g')"
    using assms by (auto simp: bindE_def split: sum.splits)
  from appendSourceLocations_files [OF this] show ?thesis by simp
next
  case (AppendLexicalData parentFunc names)
  then obtain off where "appendLexicalData parentFunc names g = Inr (off, g')"
    using assms by (auto simp: bindE_def split: sum.splits)
  from appendLexicalData_effect [OF this] show ?thesis by simp
qed


lemma runCalls_grows:
  assumes "runCalls cs g = Inr g'"
  shows "(\<exists>bytes. sourcesData g' = sourcesData g @ bytes) \<and>
         (\<exists>lex. lexicalData g' = lexicalData g @ lex) \<and>
         (\<exists>new. files g' = files g @ new) \<and> (validData g \<longrightarrow> validData g')"
  using assms
proof (induction cs arbitrary: g)
  case Nil
  then show ?case by simp
next
  case (Cons c cs)
  from Cons.prems obtain g1 where
    c: "runCall c g = Inr g1" and r: "runCalls cs g1 = Inr g'"
    by (auto simp: bindE_def split: sum.splits)
  from runCall_effect [OF c] Cons.IH [OF r] show ?case
    by (metis append.assoc)
qed

text \<open>
  The invariant of the table: the regions are in the order of their \<open>fromAddress\<close>, none
  beyond the end of the sources buffer.
\<close>

definition filesOrdered :: "DebugInfoGenerator \<Rightarrow> bool" where
  "filesOrdered g \<longleftrightarrow>
     sorted (map fromAddress (files g)) \<and>
     (\<forall>r \<in> set (files g). fromAddress r \<le> length (sourcesData g))"

lemma runCall_filesOrdered:
  assumes c: "runCall c g = Inr g'" and len: "length (sourcesData g') < 2 ^ 32"
    and inv: "filesOrdered g"
  shows "filesOrdered g'"
proof -
  from runCall_effect [OF c] len obtain bytes new where
    b: "sourcesData g' = sourcesData g @ bytes" and
    n: "files g' = files g @ new" and
    s: "sorted (map fromAddress new)" and
    r: "\<forall>r \<in> set new. length (sourcesData g) \<le> fromAddress r \<and>
                        fromAddress r \<le> length (sourcesData g')"
    by auto
  have "sorted (map fromAddress (files g @ new))"
    using inv s r by (fastforce simp: filesOrdered_def sorted_append)
  moreover have "\<forall>r \<in> set (files g @ new). fromAddress r \<le> length (sourcesData g')"
    using inv r b by (fastforce simp: filesOrdered_def)
  ultimately show ?thesis by (simp add: filesOrdered_def n)
qed

lemma runCalls_filesOrdered:
  assumes "runCalls cs g = Inr g'" and "length (sourcesData g') < 2 ^ 32" and "filesOrdered g"
  shows "filesOrdered g'"
  using assms
proof (induction cs arbitrary: g)
  case Nil
  then show ?case by simp
next
  case (Cons c cs)
  from Cons.prems obtain g1 where
    c: "runCall c g = Inr g1" and r: "runCalls cs g1 = Inr g'"
    by (auto simp: bindE_def split: sum.splits)
  have "length (sourcesData g1) \<le> length (sourcesData g')"
    using runCalls_grows [OF r] by auto
  then have "length (sourcesData g1) < 2 ^ 32"
    using Cons.prems(2) by simp
  then have "filesOrdered g1"
    using runCall_filesOrdered [OF c] Cons.prems(3) by simp
  then show ?case
    using Cons.IH [OF r Cons.prems(2)] by simp
qed

lemma newDebugInfoGenerator_eq:
  "newDebugInfoGenerator =
     Inr \<lparr>validData = True, sourcesData = [], lexicalData = [0x7F, 0], files = []\<rparr>"
  by (simp add: newDebugInfoGenerator_def kEmptyLexicalDataOffset_def appendSignedLEB128_def
      encodeSLEB_small)

lemma generate_runCalls:
  "generate cs = runCalls cs \<lparr>validData = True, sourcesData = [], lexicalData = [0x7F, 0],
                               files = []\<rparr>"
  by (simp add: generate_def newDebugInfoGenerator_eq bindE_def)



section \<open>Looking up the filename of a debug offset\<close>

lemma fileLoop_Some: "fileLoop off rs (Some v) \<noteq> None"
  by (induction rs arbitrary: v) auto

lemma fileLoop_before: "off < fromAddress r \<Longrightarrow> fileLoop off (xs @ r # ys) v = fileLoop off xs v"
  by (induction xs arbitrary: v) auto

lemma fileLoop_all:
  "\<forall>x \<in> set xs. fromAddress x \<le> off \<Longrightarrow> xs \<noteq> [] \<Longrightarrow>
   fileLoop off (xs @ ys) v = fileLoop off ys (Some (DebugFileRegion.filenameId (last xs)))"
proof (induction xs arbitrary: v)
  case Nil
  then show ?case by simp
next
  case (Cons x xs)
  then show ?case by (cases "xs = []") auto
qed

lemma fileLoop_None_iff:
  "sorted (map fromAddress rs) \<Longrightarrow>
   fileLoop off rs None = None \<longleftrightarrow> (\<forall>r \<in> set rs. off < fromAddress r)"
proof (cases rs)
  case Nil
  then show ?thesis by simp
next
  case (Cons r rs')
  assume s: "sorted (map fromAddress rs)"
  show ?thesis
  proof (cases "fromAddress r \<le> off")
    case True
    then show ?thesis using Cons fileLoop_Some by auto
  next
    case False
    then have "\<forall>x \<in> set rs. off < fromAddress x"
      using s Cons by auto
    then show ?thesis using False Cons by simp
  qed
qed

text \<open>The invariant of the first region: a table that is not empty starts at offset 0, and it is
  empty only as long as nothing has been written.\<close>

definition startsAtZero :: "DebugInfoGenerator \<Rightarrow> bool" where
  "startsAtZero g \<longleftrightarrow>
     (files g = [] \<longrightarrow> sourcesData g = []) \<and>
     (files g \<noteq> [] \<longrightarrow> fromAddress (hd (files g)) = 0)"

lemma runCall_startsAtZero:
  assumes c: "runCall c g = Inr g'" and inv: "startsAtZero g"
  shows "startsAtZero g'"
proof (cases c)
  case (AppendLexicalData parentFunc names)
  then obtain off where "appendLexicalData parentFunc names g = Inr (off, g')"
    using c by (auto simp: bindE_def split: sum.splits)
  from appendLexicalData_effect [OF this] inv show ?thesis
    by (simp add: startsAtZero_def)
next
  case (AppendSourceLocations start fi offs)
  then obtain off where a: "appendSourceLocations start fi offs g = Inr (off, g')"
    using c by (auto simp: bindE_def split: sum.splits)
  show ?thesis
  proof (cases "offs = []")
    case True
    then have "g' = g" using a appendSourceLocations_empty by blast
    then show ?thesis using inv by simp
  next
    case False
    from appendSourceLocations_unfold [OF a False] obtain g2 where
      r: "appendLocations start start offs (withHeader start fi g) = Inr g2" and
      g': "g' = g2\<lparr>sourcesData := sourcesData g2 @ encodeSLEB (- 1)\<rparr>"
      by blast
    from appendLocations_files [OF r] obtain new where
      new: "files g2 = files (withHeader start fi g) @ new"
      by blast
    have "files (withHeader start fi g) \<noteq> [] \<and>
          fromAddress (hd (files (withHeader start fi g))) = 0"
      using inv by (cases "files g = []") (auto simp: withHeader_def startsAtZero_def)
    then have "files g' \<noteq> [] \<and> fromAddress (hd (files g')) = 0"
      by (simp add: g' new)
    then show ?thesis by (simp add: startsAtZero_def)
  qed
qed

lemma runCalls_startsAtZero:
  "runCalls cs g = Inr g' \<Longrightarrow> startsAtZero g \<Longrightarrow> startsAtZero g'"
proof (induction cs arbitrary: g)
  case Nil
  then show ?case by simp
next
  case (Cons c cs)
  from Cons.prems(1) obtain g1 where
    c: "runCall c g = Inr g1" and r: "runCalls cs g1 = Inr g'"
    by (auto simp: bindE_def split: sum.splits)
  from Cons.IH [OF r] runCall_startsAtZero [OF c Cons.prems(2)] show ?case by simp
qed

text \<open>
  C9. After any sequence of calls on a new generator, a sources buffer that is not empty
  comes with a file table that is not empty and whose first region has \<open>fromAddress\<close> 0.
  So in the debug info serialized from such a generator \<open>getFilenameForAddress\<close> returns
  a filename, never none, at every offset, which is what \<open>populateSourceMap\<close> relies on
  when it dereferences the result unchecked.
\<close>

theorem first_region_starts_at_zero:
  assumes "generate cs = Inr g" and "sourcesData g \<noteq> []"
  shows "files g \<noteq> [] \<and> fromAddress (hd (files g)) = 0 \<and>
         (\<exists>d g2. serializeWithMove g = Inr (d, g2) \<and>
                 (\<forall>off. getFilenameForAddress d off \<noteq> None))"
proof -
  let ?g0 = "\<lparr>validData = True, sourcesData = [], lexicalData = [0x7F, 0 :: u8], files = []\<rparr>"
  have run: "runCalls cs ?g0 = Inr g"
    using assms(1) by (simp add: generate_runCalls)
  have "startsAtZero ?g0" by (simp add: startsAtZero_def)
  then have "startsAtZero g" using runCalls_startsAtZero [OF run] by simp
  then have f: "files g \<noteq> []" and z: "fromAddress (hd (files g)) = 0"
    using assms(2) by (auto simp: startsAtZero_def)
  have v: "validData g"
    using runCalls_grows [OF run] by simp
  obtain r rs where rs: "files g = r # rs" using f by (cases "files g") auto
  have "fileLoop off (files g) None \<noteq> None" for off
    using z fileLoop_Some by (simp add: rs)
  then show ?thesis
    using f z v by (simp add: serializeWithMove_def Let_def getFilenameForAddress_def)
qed

theorem first_region_starts_at_zero_witness:
  "generate
     [AppendLexicalData (Some 0) [],
      AppendSourceLocations
        \<lparr>address = 0, filenameId = 7, sourceMappingUrlId = 0, line = 10, column = 5,
         statement = 0\<rparr> 0 [],
      AppendSourceLocations
        \<lparr>address = 0, filenameId = 7, sourceMappingUrlId = 0, line = 10, column = 5,
         statement = 0\<rparr> 0
        [\<lparr>address = 3, filenameId = 7, sourceMappingUrlId = 0, line = 10, column = 9,
          statement = 1\<rparr>]] =
   Inr \<lparr>validData = True, sourcesData = [0, 10, 5, 3, 1, 4, 1, 0x7F],
        lexicalData = [0x7F, 0, 0, 0],
        files = [\<lparr>fromAddress = 0, filenameId = 7, sourceMappingUrlId = 0\<rparr>]\<rparr> \<and>
   [0, 10, 5, 3, 1, 4, 1, 0x7F :: u8] \<noteq> [] \<and>
   fromAddress (hd [\<lparr>fromAddress = 0, filenameId = 7, sourceMappingUrlId = 0\<rparr>]) = 0 \<and>
   getFilenameForAddress
     \<lparr>info_files = [\<lparr>fromAddress = 0, filenameId = 7, sourceMappingUrlId = 0\<rparr>],
      lexicalDataOffset = 8,
      info_data = [0, 10, 5, 3, 1, 4, 1, 0x7F, 0x7F, 0, 0, 0]\<rparr> 5 \<noteq> None"
proof -
  let ?cs = "[AppendLexicalData (Some 0) [],
      AppendSourceLocations
        \<lparr>address = 0, filenameId = 7, sourceMappingUrlId = 0, line = 10, column = 5,
         statement = 0\<rparr> 0 [],
      AppendSourceLocations
        \<lparr>address = 0, filenameId = 7, sourceMappingUrlId = 0, line = 10, column = 5,
         statement = 0\<rparr> 0
        [\<lparr>address = 3, filenameId = 7, sourceMappingUrlId = 0, line = 10, column = 9,
          statement = 1\<rparr>]]"
  let ?g = "\<lparr>validData = True, sourcesData = [0, 10, 5, 3, 1, 4, 1, 0x7F :: u8],
        lexicalData = [0x7F, 0, 0, 0 :: u8],
        files = [\<lparr>fromAddress = 0, filenameId = 7, sourceMappingUrlId = 0\<rparr>]\<rparr>"
  have h1: "generate ?cs = Inr ?g"
    by (simp add: generate_runCalls appendSourceLocations_def appendLocation_def delta_def
        appendLexicalData_def bindE_def Let_def appendSignedLEB128_def encodeSLEB_small)
  have h2: "sourcesData ?g \<noteq> []" by simp
  from first_region_starts_at_zero [OF h1 h2]
  have "fromAddress (hd (files ?g)) = 0 \<and>
        (\<exists>d g2. serializeWithMove ?g = Inr (d, g2) \<and>
                (\<forall>off. getFilenameForAddress d off \<noteq> None))"
    by blast
  then show ?thesis
    using h1 by (auto simp: serializeWithMove_def Let_def)
qed

section \<open>A change of filename inside a function\<close>

text \<open>
  The invariant of the loop of \<open>appendSourceLocations\<close>, before the location after
  \<open>previous\<close> is written: the last region of the table carries the filename of
  \<open>previous\<close> and begins at or before \<open>prevOff\<close>, the offset of the first byte written
  for \<open>previous\<close>. It holds once the header is written, and each turn of the loop
  keeps it.
\<close>

definition regionInv :: "DebugInfoGenerator \<Rightarrow> DebugSourceLocation \<Rightarrow> nat \<Rightarrow> bool" where
  "regionInv g previous prevOff \<longleftrightarrow>
     filesOrdered g \<and> files g \<noteq> [] \<and>
     DebugFileRegion.filenameId (last (files g)) = filenameId previous \<and>
     fromAddress (last (files g)) \<le> prevOff \<and> prevOff \<le> length (sourcesData g)"

lemma regionInv_header:
  assumes "filesOrdered g" and "length (sourcesData g) < 2 ^ 32"
  shows "regionInv (withHeader start fi g) start (length (sourcesData g))"
proof (cases "files g = [] \<or> DebugFileRegion.filenameId (last (files g)) \<noteq> filenameId start")
  case True
  then show ?thesis
    using assms
    by (fastforce simp: regionInv_def filesOrdered_def withHeader_def sorted_append)
next
  case False
  then have "fromAddress (last (files g)) \<le> length (sourcesData g)"
    using assms(1) by (simp add: filesOrdered_def)
  then show ?thesis
    using False assms
    by (fastforce simp: regionInv_def filesOrdered_def withHeader_def)
qed

lemma regionInv_step:
  assumes "regionInv g previous prevOff"
    and "appendLocation start previous nxt g = Inr g'"
    and "length (sourcesData g) < 2 ^ 32"
  shows "regionInv g' nxt (length (sourcesData g))"
proof -
  from assms(2) have
    f: "files g' = files g @ newRegion start previous nxt (length (sourcesData g))" and
    s: "sourcesData g' = sourcesData g @ recordBytes previous nxt"
    by (simp_all add: appendLocation_Inr)
  show ?thesis
  proof (cases "filenameId nxt = filenameId previous")
    case True
    then show ?thesis
      using assms(1) by (fastforce simp: regionInv_def filesOrdered_def f s newRegion_def)
  next
    case False
    then show ?thesis
      using assms(1,3)
      by (fastforce simp: regionInv_def filesOrdered_def f s newRegion_def sorted_append)
  qed
qed

lemma streamBytes_append:
  "streamBytes previous (xs @ ys) = streamBytes previous xs @ streamBytes (last (previous # xs)) ys"
  by (induction xs arbitrary: previous) simp_all

lemma appendLocations_append:
  "appendLocations start previous (xs @ ys) g =
   bindE (appendLocations start previous xs g) (appendLocations start (last (previous # xs)) ys)"
proof (induction xs arbitrary: previous g)
  case Nil
  then show ?case by (simp add: bindE_def)
next
  case (Cons x xs)
  then show ?case by (cases "appendLocation start previous x g") (simp_all add: bindE_def)
qed

text \<open>
  In a function whose header begins at byte \<open>off\<close>, the offset of the first byte written
  for the last location of \<open>start # pre\<close>: the header for \<open>start\<close> itself, and else the
  record of that location.
\<close>

definition locationOffset ::
  "nat \<Rightarrow> DebugSourceLocation \<Rightarrow> u32 \<Rightarrow> DebugSourceLocation list \<Rightarrow> nat" where
  "locationOffset off start fi pre =
     (if pre = [] then off
      else off + headerLength start fi + length (streamBytes start (butlast pre)))"

lemma appendLocations_regionInv:
  assumes "regionInv h previous p"
    and "appendLocations start previous pre h = Inr gi"
    and "length (sourcesData gi) < 2 ^ 32"
  shows "regionInv gi (last (previous # pre))
           (if pre = [] then p
            else length (sourcesData h) + length (streamBytes previous (butlast pre)))"
  using assms(2,3)
proof (induction pre arbitrary: gi rule: rev_induct)
  case Nil
  then show ?case using assms(1) by simp
next
  case (snoc x xs)
  from snoc.prems(1) obtain gm where
    m: "appendLocations start previous xs h = Inr gm" and
    s: "appendLocation start (last (previous # xs)) x gm = Inr gi"
    by (auto simp: appendLocations_append bindE_def split: sum.splits)
  have src: "sourcesData gm = sourcesData h @ streamBytes previous xs"
    using appendLocations_sources [OF m] by simp
  have "sourcesData gi = sourcesData gm @ recordBytes (last (previous # xs)) x"
    using s by (simp add: appendLocation_Inr)
  then have lm: "length (sourcesData gm) < 2 ^ 32"
    using snoc.prems(2) by simp
  from snoc.IH [OF m lm] obtain q where q: "regionInv gm (last (previous # xs)) q"
    by blast
  have "regionInv gi x (length (sourcesData gm))"
    using regionInv_step [OF q s lm] .
  then show ?case by (simp add: src)
qed

lemma fileLoop_stop: "xs = [] \<or> off < fromAddress (hd xs) \<Longrightarrow> fileLoop off xs v = v"
  by (cases xs) auto

lemma sorted_last_max:
  "sorted (map fromAddress xs) \<Longrightarrow> xs \<noteq> [] \<Longrightarrow>
   \<forall>x \<in> set xs. fromAddress x \<le> fromAddress (last xs)"
proof -
  assume s: "sorted (map fromAddress xs)" and ne: "xs \<noteq> []"
  obtain ys y where xs: "xs = ys @ [y]"
    using ne by (metis append_butlast_last_id)
  show ?thesis using s by (auto simp: xs sorted_append)
qed

lemma headerLength_pos: "0 < headerLength start fi"
  using encodeSLEB_nonempty [of "uint fi"] by (simp add: headerLength_def)

lemma locationOffset_less:
  "locationOffset off start fi pre < locationOffset off start fi (pre @ [nxt])"
proof (cases "pre = []")
  case True
  then show ?thesis using headerLength_pos [of start fi] by (simp add: locationOffset_def)
next
  case False
  then obtain xs x where pre: "pre = xs @ [x]"
    by (metis append_butlast_last_id)
  have ne: "recordBytes (last (start # xs)) x \<noteq> []"
    by (simp add: recordBytes_def encodeSLEB_nonempty)
  have "length (streamBytes start xs) < length (streamBytes start (xs @ [x]))"
    using ne by (simp add: streamBytes_append)
  then have "length (streamBytes start (butlast pre)) < length (streamBytes start pre)"
    by (simp add: pre)
  then show ?thesis
    using False by (simp add: locationOffset_def)
qed

text \<open>
  C5 (amended). Let \<open>appendSourceLocations\<close> be called, on the generator left by any
  sequence of calls on a new generator, for a function in which the location \<open>nxt\<close>
  follows \<open>previous\<close> and has another \<open>filenameId\<close>, and let any further calls
  follow, the sources buffer staying below \<open>2 ^ 32\<close> bytes. Then the file table of the
  serialized debug info holds a region whose \<open>fromAddress\<close> is \<open>recOff\<close>, the offset
  of the first byte of the record of \<open>nxt\<close> (the size of the sources buffer when the
  region is appended), whose \<open>filenameId\<close> is that of \<open>nxt\<close> and whose
  \<open>sourceMappingUrlId\<close> is that of the function's start location. The region before
  it in the table has the filename of \<open>previous\<close> and begins at or before \<open>prevOff\<close>,
  the offset of the first byte written for \<open>previous\<close>. \<open>getFilenameForAddress\<close>
  returns the filename of \<open>previous\<close> at every offset from the beginning of that
  earlier region up to \<open>recOff\<close>, and the filename of \<open>nxt\<close> at every offset from
  \<open>recOff\<close> up to the \<open>fromAddress\<close> of the region after it, or at every offset from
  \<open>recOff\<close> on if no region comes after it.
\<close>

theorem filename_change_lookup:
  assumes "generate cs = Inr g"
    and "appendSourceLocations start fi (pre @ nxt # post) g = Inr (off, g')"
    and "runCalls later g' = Inr gF"
    and "length (sourcesData gF) < 2 ^ 32"
    and "previous = last (start # pre)"
    and "filenameId nxt \<noteq> filenameId previous"
    and "prevOff = locationOffset off start fi pre"
    and "recOff = locationOffset off start fi (pre @ [nxt])"
  shows "\<exists>d gM before after rest.
           serializeWithMove gF = Inr (d, gM) \<and>
           info_files d =
             before @ \<lparr>fromAddress = recOff, filenameId = filenameId nxt,
                       sourceMappingUrlId = sourceMappingUrlId start\<rparr> # after \<and>
           drop recOff (info_data d) = recordBytes previous nxt @ rest \<and>
           before \<noteq> [] \<and>
           DebugFileRegion.filenameId (last before) = filenameId previous \<and>
           fromAddress (last before) \<le> prevOff \<and> prevOff < recOff \<and>
           (\<forall>o'. fromAddress (last before) \<le> o' \<and> o' < recOff \<longrightarrow>
              getFilenameForAddress d o' = Some (filenameId previous)) \<and>
           (\<forall>o'. recOff \<le> o' \<and> (after \<noteq> [] \<longrightarrow> o' < fromAddress (hd after)) \<longrightarrow>
              getFilenameForAddress d o' = Some (filenameId nxt))"
proof -
  let ?g0 = "\<lparr>validData = True, sourcesData = [], lexicalData = [0x7F, 0 :: u8], files = []\<rparr>"
  let ?h = "withHeader start fi g"
  let ?r = "\<lparr>fromAddress = recOff, filenameId = filenameId nxt,
             sourceMappingUrlId = sourceMappingUrlId start\<rparr>"
  have run: "runCalls cs ?g0 = Inr g"
    using assms(1) by (simp add: generate_runCalls)
  have vg: "validData g" using runCalls_grows [OF run] by simp
  from appendSourceLocations_unfold [OF assms(2)] obtain g2 where
    all: "appendLocations start start (pre @ nxt # post) ?h = Inr g2" and
    g': "g' = g2\<lparr>sourcesData := sourcesData g2 @ encodeSLEB (- 1)\<rparr>" and
    off: "off = length (sourcesData g) mod 2 ^ 32"
    by auto
  from all obtain gi where
    i: "appendLocations start start pre ?h = Inr gi" and
    r: "appendLocations start previous (nxt # post) gi = Inr g2"
    by (auto simp: appendLocations_append bindE_def assms(5) split: sum.splits)
  from r obtain gj where
    j: "appendLocation start previous nxt gi = Inr gj" and
    p: "appendLocations start nxt post gj = Inr g2"
    by (auto simp: bindE_def split: sum.splits)
  have sh: "sourcesData ?h = sourcesData g @ encodeSLEB (uint fi) @
              encodeSLEB (uint (line start)) @ encodeSLEB (uint (column start))"
    by (simp add: withHeader_def)
  have si: "sourcesData gi = sourcesData ?h @ streamBytes start pre"
    using appendLocations_sources [OF i] by simp
  have sj: "sourcesData gj = sourcesData gi @ recordBytes previous nxt"
    and fj: "files gj = files gi @ newRegion start previous nxt (length (sourcesData gi))"
    using j by (simp_all add: appendLocation_Inr)
  have s2: "sourcesData g2 = sourcesData gj @ streamBytes nxt post"
    using appendLocations_sources [OF p] by simp
  obtain new where f2: "files g2 = files gj @ new"
    using appendLocations_files [OF p] by blast
  from runCalls_grows [OF assms(3)] obtain bytes new' where
    sF: "sourcesData gF = sourcesData g' @ bytes" and fF: "files gF = files g' @ new'"
    and vF: "validData g' \<longrightarrow> validData gF"
    by auto
  have v': "validData g'"
    using appendSourceLocations_files [OF assms(2)] by simp
  have lens: "length (sourcesData g) \<le> length (sourcesData gi)"
    "length (sourcesData gi) < 2 ^ 32"
    using assms(4) by (simp_all add: sF g' s2 sj si sh)
  then have lg: "length (sourcesData g) < 2 ^ 32" by simp
  have offg: "off = length (sourcesData g)"
    using off lg by simp
  have ord: "filesOrdered g"
    using runCalls_filesOrdered [OF run lg] by (simp add: filesOrdered_def)
  have invh: "regionInv ?h start (length (sourcesData g))"
    using regionInv_header [OF ord lg] .
  have lh: "length (sourcesData ?h) = off + headerLength start fi"
    by (simp add: sh offg headerLength_def)
  have invi: "regionInv gi previous prevOff"
  proof (cases "pre = []")
    case True
    then show ?thesis
      using appendLocations_regionInv [OF invh i lens(2)]
      by (simp add: assms(5,7) locationOffset_def offg)
  next
    case False
    then show ?thesis
      using appendLocations_regionInv [OF invh i lens(2)]
      by (simp add: assms(5,7) locationOffset_def lh)
  qed
  have rec: "recOff = length (sourcesData gi)"
    by (simp add: assms(8) locationOffset_def si lh)
  have reg: "newRegion start previous nxt (length (sourcesData gi)) = [?r]"
    using assms(6) lens(2) by (simp add: newRegion_def rec)
  define d where
    "d = \<lparr>info_files = files gF, lexicalDataOffset = length (sourcesData gF) mod 2 ^ 32,
          info_data = sourcesData gF @ lexicalData gF\<rparr>"
  have ser: "serializeWithMove gF =
             Inr (d, gF\<lparr>validData := False, sourcesData := [], files := []\<rparr>)"
    using v' vF by (simp add: serializeWithMove_def Let_def d_def)
  have fd: "info_files d = files gi @ ?r # (new @ new')"
    by (simp add: d_def fF g' f2 fj reg)
  have dd: "drop recOff (info_data d) =
            recordBytes previous nxt @
            (streamBytes nxt post @ encodeSLEB (- 1) @ bytes @ lexicalData gF)"
    by (simp add: d_def sF g' s2 sj rec)
  have ne: "files gi \<noteq> []"
    and lf: "DebugFileRegion.filenameId (last (files gi)) = filenameId previous"
    and lo: "fromAddress (last (files gi)) \<le> prevOff"
    and so: "sorted (map fromAddress (files gi))"
    using invi by (simp_all add: regionInv_def filesOrdered_def)
  have lt: "prevOff < recOff"
    unfolding assms(7,8) by (rule locationOffset_less)
  have below: "\<forall>x \<in> set (files gi). fromAddress x \<le> fromAddress (last (files gi))"
    using sorted_last_max [OF so ne] .
  have before: "getFilenameForAddress d o' = Some (filenameId previous)"
    if "fromAddress (last (files gi)) \<le> o'" and "o' < recOff" for o'
  proof -
    have "fileLoop o' (files gi @ ?r # (new @ new')) None = fileLoop o' (files gi) None"
      using that(2) by (intro fileLoop_before) simp
    moreover have "\<forall>x \<in> set (files gi). fromAddress x \<le> o'"
      using below that(1) by fastforce
    then have "fileLoop o' (files gi @ []) None =
               fileLoop o' [] (Some (DebugFileRegion.filenameId (last (files gi))))"
      using ne by (intro fileLoop_all) simp_all
    ultimately show ?thesis by (simp add: getFilenameForAddress_def fd lf)
  qed
  have after: "getFilenameForAddress d o' = Some (filenameId nxt)"
    if "recOff \<le> o'" and "new @ new' \<noteq> [] \<longrightarrow> o' < fromAddress (hd (new @ new'))" for o'
  proof -
    have "\<forall>x \<in> set (files gi @ [?r]). fromAddress x \<le> o'"
      using below lo lt that(1) by fastforce
    then have "fileLoop o' ((files gi @ [?r]) @ (new @ new')) None =
               fileLoop o' (new @ new') (Some (DebugFileRegion.filenameId (last (files gi @ [?r]))))"
      by (intro fileLoop_all) simp_all
    moreover have "fileLoop o' (new @ new') (Some (filenameId nxt)) = Some (filenameId nxt)"
      using that(2) by (intro fileLoop_stop) auto
    ultimately show ?thesis by (simp add: getFilenameForAddress_def fd)
  qed
  show ?thesis
    using ser fd dd ne lf lo lt before after by blast
qed

theorem filename_change_lookup_witness:
  "generate [] =
     Inr \<lparr>validData = True, sourcesData = [], lexicalData = [0x7F, 0], files = []\<rparr> \<and>
   appendSourceLocations
     \<lparr>address = 0, filenameId = 1, sourceMappingUrlId = 9, line = 1, column = 1,
      statement = 0\<rparr> 0
     ([] @
      \<lparr>address = 1, filenameId = 2, sourceMappingUrlId = 8, line = 1, column = 1,
       statement = 0\<rparr> #
      [\<lparr>address = 2, filenameId = 3, sourceMappingUrlId = 8, line = 1, column = 1,
        statement = 0\<rparr>])
     \<lparr>validData = True, sourcesData = [], lexicalData = [0x7F, 0], files = []\<rparr> =
   Inr (0, \<lparr>validData = True, sourcesData = [0, 1, 1, 1, 0, 0, 1, 0, 0, 0x7F],
            lexicalData = [0x7F, 0],
            files = [\<lparr>fromAddress = 0, filenameId = 1, sourceMappingUrlId = 9\<rparr>,
                     \<lparr>fromAddress = 3, filenameId = 2, sourceMappingUrlId = 9\<rparr>,
                     \<lparr>fromAddress = 6, filenameId = 3, sourceMappingUrlId = 9\<rparr>]\<rparr>) \<and>
   locationOffset 0
     \<lparr>address = 0, filenameId = 1, sourceMappingUrlId = 9, line = 1, column = 1,
      statement = 0\<rparr> 0 [] = 0 \<and>
   locationOffset 0
     \<lparr>address = 0, filenameId = 1, sourceMappingUrlId = 9, line = 1, column = 1,
      statement = 0\<rparr> 0
     [\<lparr>address = 1, filenameId = 2, sourceMappingUrlId = 8, line = 1, column = 1,
       statement = 0\<rparr>] = 3 \<and>
   getFilenameForAddress
     \<lparr>info_files = [\<lparr>fromAddress = 0, filenameId = 1, sourceMappingUrlId = 9\<rparr>,
                     \<lparr>fromAddress = 3, filenameId = 2, sourceMappingUrlId = 9\<rparr>,
                     \<lparr>fromAddress = 6, filenameId = 3, sourceMappingUrlId = 9\<rparr>],
      lexicalDataOffset = 10,
      info_data = [0, 1, 1, 1, 0, 0, 1, 0, 0, 0x7F, 0x7F, 0]\<rparr> 2 = Some 1 \<and>
   getFilenameForAddress
     \<lparr>info_files = [\<lparr>fromAddress = 0, filenameId = 1, sourceMappingUrlId = 9\<rparr>,
                     \<lparr>fromAddress = 3, filenameId = 2, sourceMappingUrlId = 9\<rparr>,
                     \<lparr>fromAddress = 6, filenameId = 3, sourceMappingUrlId = 9\<rparr>],
      lexicalDataOffset = 10,
      info_data = [0, 1, 1, 1, 0, 0, 1, 0, 0, 0x7F, 0x7F, 0]\<rparr> 5 = Some 2"
proof -
  let ?g0 = "\<lparr>validData = True, sourcesData = [], lexicalData = [0x7F, 0 :: u8], files = []\<rparr>"
  let ?s = "\<lparr>address = 0, filenameId = 1, sourceMappingUrlId = 9, line = 1, column = 1,
             statement = 0 :: u32\<rparr>"
  let ?l1 = "\<lparr>address = 1, filenameId = 2, sourceMappingUrlId = 8, line = 1, column = 1,
              statement = 0 :: u32\<rparr>"
  let ?l2 = "\<lparr>address = 2, filenameId = 3, sourceMappingUrlId = 8, line = 1, column = 1,
              statement = 0 :: u32\<rparr>"
  let ?r0 = "\<lparr>fromAddress = 0, filenameId = 1, sourceMappingUrlId = 9\<rparr>"
  let ?r1 = "\<lparr>fromAddress = 3, filenameId = 2, sourceMappingUrlId = 9\<rparr>"
  let ?r2 = "\<lparr>fromAddress = 6, filenameId = 3, sourceMappingUrlId = 9\<rparr>"
  let ?gF = "\<lparr>validData = True, sourcesData = [0, 1, 1, 1, 0, 0, 1, 0, 0, 0x7F :: u8],
              lexicalData = [0x7F, 0 :: u8], files = [?r0, ?r1, ?r2]\<rparr>"
  let ?d = "\<lparr>info_files = [?r0, ?r1, ?r2], lexicalDataOffset = 10,
             info_data = [0, 1, 1, 1, 0, 0, 1, 0, 0, 0x7F, 0x7F, 0 :: u8]\<rparr>"
  have h1: "generate [] = Inr ?g0" by (simp add: generate_runCalls)
  have h2: "appendSourceLocations ?s 0 ([] @ ?l1 # [?l2]) ?g0 = Inr (0, ?gF)"
    by (simp add: appendSourceLocations_def appendLocation_def delta_def bindE_def Let_def
        appendSignedLEB128_def encodeSLEB_small)
  have h3: "runCalls [] ?gF = Inr ?gF" by simp
  have h4: "length (sourcesData ?gF) < 2 ^ 32" by simp
  have h5: "?s = last (?s # [])" by simp
  have h6: "filenameId ?l1 \<noteq> filenameId ?s" by simp
  have h7: "0 = locationOffset 0 ?s 0 []" by (simp add: locationOffset_def)
  have h8: "3 = locationOffset 0 ?s 0 ([] @ [?l1])"
    by (simp add: locationOffset_def headerLength_def encodeSLEB_small)
  have ser: "serializeWithMove ?gF =
             Inr (?d, \<lparr>validData = False, sourcesData = [], lexicalData = [0x7F, 0], files = []\<rparr>)"
    by (simp add: serializeWithMove_def Let_def)
  from filename_change_lookup [OF h1 h2 h3 h4 h5 h6 h7 h8] obtain before after where
    fd: "info_files ?d = before @ ?r1 # after" and
    ne: "before \<noteq> []" and
    lo: "fromAddress (last before) \<le> 0" and
    b: "\<forall>o'. fromAddress (last before) \<le> o' \<and> o' < 3 \<longrightarrow>
          getFilenameForAddress ?d o' = Some (filenameId ?s)" and
    a: "\<forall>o'. 3 \<le> o' \<and> (after \<noteq> [] \<longrightarrow> o' < fromAddress (hd after)) \<longrightarrow>
          getFilenameForAddress ?d o' = Some (filenameId ?l1)"
    unfolding ser by auto
  have "before = [?r0] \<and> after = [?r2]"
    using fd ne by (auto simp: append_eq_Cons_conv Cons_eq_append_conv)
  then have "getFilenameForAddress ?d 2 = Some 1 \<and> getFilenameForAddress ?d 5 = Some 2"
    using a b lo by simp
  then show ?thesis using h2 h7 h8 by (simp add: generate_runCalls)
qed

text \<open>
  C5 as stated fails: a function whose three locations are in the files 1, 2 and 3 gets
  the regions at the offsets 0, 3 and 6. Offset 0 is before the region appended for the
  change from file 2 to file 3, but the lookup there gives file 1, not the earlier
  filename 2: the offset lies before the region of file 2 as well. Offset 6 is after
  the region appended for the change from file 1 to file 2, but the lookup there gives
  file 3: the offset lies in the region that follows.
\<close>

theorem filename_change_lookup_counterexample:
  "generate
     [AppendSourceLocations
        \<lparr>address = 0, filenameId = 1, sourceMappingUrlId = 9, line = 1, column = 1,
         statement = 0\<rparr> 0
        [\<lparr>address = 1, filenameId = 2, sourceMappingUrlId = 8, line = 1, column = 1,
          statement = 0\<rparr>,
         \<lparr>address = 2, filenameId = 3, sourceMappingUrlId = 8, line = 1, column = 1,
          statement = 0\<rparr>]] =
   Inr \<lparr>validData = True, sourcesData = [0, 1, 1, 1, 0, 0, 1, 0, 0, 0x7F],
        lexicalData = [0x7F, 0],
        files = [\<lparr>fromAddress = 0, filenameId = 1, sourceMappingUrlId = 9\<rparr>,
                 \<lparr>fromAddress = 3, filenameId = 2, sourceMappingUrlId = 9\<rparr>,
                 \<lparr>fromAddress = 6, filenameId = 3, sourceMappingUrlId = 9\<rparr>]\<rparr> \<and>
   serializeWithMove
     \<lparr>validData = True, sourcesData = [0, 1, 1, 1, 0, 0, 1, 0, 0, 0x7F],
      lexicalData = [0x7F, 0],
      files = [\<lparr>fromAddress = 0, filenameId = 1, sourceMappingUrlId = 9\<rparr>,
               \<lparr>fromAddress = 3, filenameId = 2, sourceMappingUrlId = 9\<rparr>,
               \<lparr>fromAddress = 6, filenameId = 3, sourceMappingUrlId = 9\<rparr>]\<rparr> =
   Inr (\<lparr>info_files = [\<lparr>fromAddress = 0, filenameId = 1, sourceMappingUrlId = 9\<rparr>,
                         \<lparr>fromAddress = 3, filenameId = 2, sourceMappingUrlId = 9\<rparr>,
                         \<lparr>fromAddress = 6, filenameId = 3, sourceMappingUrlId = 9\<rparr>],
          lexicalDataOffset = 10,
          info_data = [0, 1, 1, 1, 0, 0, 1, 0, 0, 0x7F, 0x7F, 0]\<rparr>,
        \<lparr>validData = False, sourcesData = [], lexicalData = [0x7F, 0], files = []\<rparr>) \<and>
   (0 :: nat) < 6 \<and>
   getFilenameForAddress
     \<lparr>info_files = [\<lparr>fromAddress = 0, filenameId = 1, sourceMappingUrlId = 9\<rparr>,
                     \<lparr>fromAddress = 3, filenameId = 2, sourceMappingUrlId = 9\<rparr>,
                     \<lparr>fromAddress = 6, filenameId = 3, sourceMappingUrlId = 9\<rparr>],
      lexicalDataOffset = 10,
      info_data = [0, 1, 1, 1, 0, 0, 1, 0, 0, 0x7F, 0x7F, 0]\<rparr> 0 = Some 1 \<and>
   (3 :: nat) \<le> 6 \<and>
   getFilenameForAddress
     \<lparr>info_files = [\<lparr>fromAddress = 0, filenameId = 1, sourceMappingUrlId = 9\<rparr>,
                     \<lparr>fromAddress = 3, filenameId = 2, sourceMappingUrlId = 9\<rparr>,
                     \<lparr>fromAddress = 6, filenameId = 3, sourceMappingUrlId = 9\<rparr>],
      lexicalDataOffset = 10,
      info_data = [0, 1, 1, 1, 0, 0, 1, 0, 0, 0x7F, 0x7F, 0]\<rparr> 6 = Some 3"
  by (simp add: generate_runCalls appendSourceLocations_def appendLocation_def delta_def
      bindE_def Let_def appendSignedLEB128_def encodeSLEB_small serializeWithMove_def
      getFilenameForAddress_def)

section \<open>The shared empty lexical record\<close>




section \<open>The location of an address\<close>

lemma locationLoop_walk:
  assumes "walk fd recs = Some fdEnd"
  shows "locationLoop addr fd lastLoc lastOff (offset fd) =
         Some (Inr (snd (last ((lastOff, lastLoc) # takeWhile (\<lambda>(off, l). address l \<le> addr) recs)),
                    fst (last ((lastOff, lastLoc) # takeWhile (\<lambda>(off, l). address l \<le> addr) recs))))"
  using assms
proof (induction recs arbitrary: fd lastLoc lastOff)
  case Nil
  then have "next' fd = Inr (None, fdEnd)"
    by (auto split: sum.splits option.splits prod.splits)
  then show ?case
    by (subst locationLoop.simps) simp
next
  case (Cons r rs)
  obtain off l where r: "r = (off, l)" by (cases r)
  from Cons.prems obtain fd1 where
    n: "next' fd = Inr (Some l, fd1)" and o: "off = offset fd" and w: "walk fd1 rs = Some fdEnd"
    unfolding r by (auto split: sum.splits option.splits prod.splits if_splits)
  show ?case
  proof (cases "address l \<le> addr")
    case True
    then have c: "(addr < address l) = False" by (simp add: not_less)
    have "locationLoop addr fd lastLoc lastOff (offset fd) =
          locationLoop addr fd1 l (offset fd) (offset fd1)"
      by (subst locationLoop.simps) (simp add: n c)
    then show ?thesis
      using Cons.IH [OF w, of l "offset fd"] True by (simp add: r o)
  next
    case False
    then have c: "(addr < address l) = True" "(address l \<le> addr) = False"
      by (simp_all add: not_le)
    show ?thesis
      by (subst locationLoop.simps) (simp add: n r c)
  qed
qed

lemma takeWhile_sorted_filter:
  "sorted (map (address \<circ> snd) recs) \<Longrightarrow>
   takeWhile (\<lambda>(off, l). address l \<le> addr) recs = filter (\<lambda>(off, l). address l \<le> addr) recs"
proof (induction recs)
  case Nil
  then show ?case by simp
next
  case (Cons r rs)
  obtain off l where r: "r = (off, l)" by (cases r)
  show ?case
  proof (cases "address l \<le> addr")
    case True
    then show ?thesis using Cons by (simp add: r)
  next
    case False
    have "\<forall>x \<in> set rs. address l \<le> address (snd x)"
      using Cons.prems by (simp add: r)
    then have "\<forall>x \<in> set rs. \<not> address (snd x) \<le> addr"
      using False by (meson order_trans)
    then have "filter (\<lambda>(off, l). address l \<le> addr) rs = []"
      by (auto simp: filter_empty_conv)
    then show ?thesis using False by (simp add: r)
  qed
qed

text \<open>
  C2. Let the blob be well formed at \<open>debugOffset\<close>: a deserializer constructed there
  reads a header and then the records \<open>recs\<close> (each with the byte offset at which it
  begins) up to the terminator, the addresses of the records do not decrease, and the
  file regions are in the order of their \<open>fromAddress\<close>. Let \<open>loc\<close> be the last
  decoded location whose address is at most \<open>addr\<close>, or the header location if there
  is none, and \<open>off\<close> the byte offset of its record (\<open>debugOffset\<close> for the header).
  Then \<open>getLocationForAddress\<close> returns \<open>loc\<close> with its address replaced by \<open>addr\<close>
  and its \<open>filenameId\<close> by the filename that \<open>getFilenameForAddress\<close> gives for
  \<open>off\<close>, and it returns none exactly when no file region has a \<open>fromAddress\<close> at or
  before \<open>off\<close>.
\<close>

theorem getLocationForAddress_last_location:
  assumes "debugOffset < length (info_data d)"
    and "newDeserializer (info_data d) debugOffset = Inr fd"
    and "walk fd recs = Some fdEnd"
    and "sorted (map (address \<circ> snd) recs)"
    and "sorted (map fromAddress (info_files d))"
    and "(off, loc) = last ((debugOffset, current fd) #
                            filter (\<lambda>(off, l). address l \<le> addr) recs)"
  shows "getLocationForAddress d debugOffset addr =
           Some (Inr (case getFilenameForAddress d off of
                        None \<Rightarrow> None
                      | Some file \<Rightarrow> Some (loc\<lparr>address := addr, filenameId := file\<rparr>))) \<and>
         (getLocationForAddress d debugOffset addr = Some (Inr None) \<longleftrightarrow>
            (\<forall>r \<in> set (info_files d). off < fromAddress r))"
proof -
  have tw: "takeWhile (\<lambda>(off, l). address l \<le> addr) recs =
            filter (\<lambda>(off, l). address l \<le> addr) recs"
    using assms(4) by (rule takeWhile_sorted_filter)
  have loop: "locationLoop addr fd (current fd) debugOffset (offset fd) = Some (Inr (loc, off))"
    using locationLoop_walk [OF assms(3), of addr "current fd" debugOffset] assms(6) [symmetric]
    by (simp add: tw)
  have res: "getLocationForAddress d debugOffset addr =
           Some (Inr (case getFilenameForAddress d off of
                        None \<Rightarrow> None
                      | Some file \<Rightarrow> Some (loc\<lparr>address := addr, filenameId := file\<rparr>)))"
    using assms(1,2) loop
    by (simp add: getLocationForAddress_def split: option.splits)
  have "getFilenameForAddress d off = None \<longleftrightarrow> (\<forall>r \<in> set (info_files d). off < fromAddress r)"
    unfolding getFilenameForAddress_def using assms(5) by (rule fileLoop_None_iff)
  then have "getLocationForAddress d debugOffset addr = Some (Inr None) \<longleftrightarrow>
            (\<forall>r \<in> set (info_files d). off < fromAddress r)"
    unfolding res by (auto split: option.splits)
  then show ?thesis using res by simp
qed

theorem getLocationForAddress_last_location_witness:
  "newDeserializer [0, 10, 5, 3, 1, 4, 1, 2, 3, 2, 1, 0x7F, 0x7F, 0] 0 =
     Inr \<lparr>data = [0, 10, 5, 3, 1, 4, 1, 2, 3, 2, 1, 0x7F, 0x7F, 0], offset = 3,
          functionIndex = 0,
          current = \<lparr>address = 0, filenameId = 0, sourceMappingUrlId = 0, line = 10,
                      column = 5, statement = 0\<rparr>\<rparr> \<and>
   walk \<lparr>data = [0, 10, 5, 3, 1, 4, 1, 2, 3, 2, 1, 0x7F, 0x7F, 0], offset = 3,
         functionIndex = 0,
         current = \<lparr>address = 0, filenameId = 0, sourceMappingUrlId = 0, line = 10,
                     column = 5, statement = 0\<rparr>\<rparr>
     [(3, \<lparr>address = 3, filenameId = 0, sourceMappingUrlId = 0, line = 10, column = 9,
           statement = 1\<rparr>),
      (7, \<lparr>address = 5, filenameId = 0, sourceMappingUrlId = 0, line = 11, column = 11,
           statement = 2\<rparr>)] =
     Some \<lparr>data = [0, 10, 5, 3, 1, 4, 1, 2, 3, 2, 1, 0x7F, 0x7F, 0], offset = 12,
           functionIndex = 0,
           current = \<lparr>address = 5, filenameId = 0, sourceMappingUrlId = 0, line = 11,
                       column = 11, statement = 2\<rparr>\<rparr> \<and>
   getLocationForAddress
     \<lparr>info_files = [\<lparr>fromAddress = 0, filenameId = 7, sourceMappingUrlId = 0\<rparr>,
                     \<lparr>fromAddress = 7, filenameId = 8, sourceMappingUrlId = 0\<rparr>],
      lexicalDataOffset = 12,
      info_data = [0, 10, 5, 3, 1, 4, 1, 2, 3, 2, 1, 0x7F, 0x7F, 0]\<rparr> 0 4 =
     Some (Inr (Some \<lparr>address = 4, filenameId = 7, sourceMappingUrlId = 0, line = 10,
                      column = 9, statement = 1\<rparr>)) \<and>
   getLocationForAddress
     \<lparr>info_files = [\<lparr>fromAddress = 0, filenameId = 7, sourceMappingUrlId = 0\<rparr>,
                     \<lparr>fromAddress = 7, filenameId = 8, sourceMappingUrlId = 0\<rparr>],
      lexicalDataOffset = 12,
      info_data = [0, 10, 5, 3, 1, 4, 1, 2, 3, 2, 1, 0x7F, 0x7F, 0]\<rparr> 0 9 =
     Some (Inr (Some \<lparr>address = 9, filenameId = 8, sourceMappingUrlId = 0, line = 11,
                      column = 11, statement = 2\<rparr>))"
proof -
  let ?buf = "[0, 10, 5, 3, 1, 4, 1, 2, 3, 2, 1, 0x7F, 0x7F, 0 :: u8]"
  let ?h = "\<lparr>address = 0, filenameId = 0, sourceMappingUrlId = 0, line = 10, column = 5,
             statement = 0 :: u32\<rparr>"
  let ?l1 = "\<lparr>address = 3, filenameId = 0, sourceMappingUrlId = 0, line = 10, column = 9,
              statement = 1 :: u32\<rparr>"
  let ?l2 = "\<lparr>address = 5, filenameId = 0, sourceMappingUrlId = 0, line = 11, column = 11,
              statement = 2 :: u32\<rparr>"
  let ?fd = "\<lparr>data = ?buf, offset = 3, functionIndex = 0, current = ?h\<rparr>"
  let ?fdEnd = "\<lparr>data = ?buf, offset = 12, functionIndex = 0, current = ?l2\<rparr>"
  let ?d = "\<lparr>info_files = [\<lparr>fromAddress = 0, filenameId = 7, sourceMappingUrlId = 0\<rparr>,
                           \<lparr>fromAddress = 7, filenameId = 8, sourceMappingUrlId = 0\<rparr>],
             lexicalDataOffset = 12, info_data = ?buf\<rparr>"
  have h1: "0 < length (info_data ?d)" by simp
  have h2: "newDeserializer (info_data ?d) 0 = Inr ?fd"
    by (simp add: newDeserializer_def decode1Int_def readSignedLEB128_def bindE_def
        defaultLocation_def)
  have h3: "walk ?fd [(3, ?l1), (7, ?l2)] = Some ?fdEnd"
    by (simp add: next'_def decode1Int_def readSignedLEB128_def bindE_def Let_def)
  have h4: "sorted (map (address \<circ> snd) [(3 :: nat, ?l1), (7, ?l2)])" by simp
  have h5: "sorted (map fromAddress (info_files ?d))" by simp
  have h6: "(3, ?l1) = last ((0, current ?fd) #
              filter (\<lambda>(off, l). address l \<le> 4) [(3 :: nat, ?l1), (7, ?l2)])"
    by simp
  have h7: "(7, ?l2) = last ((0, current ?fd) #
              filter (\<lambda>(off, l). address l \<le> 9) [(3 :: nat, ?l1), (7, ?l2)])"
    by simp
  have a: "getLocationForAddress ?d 0 4 =
           Some (Inr (Some (?l1\<lparr>address := 4, filenameId := 7\<rparr>)))"
    using getLocationForAddress_last_location [OF h1 h2 h3 h4 h5 h6]
    by (simp add: getFilenameForAddress_def)
  have b: "getLocationForAddress ?d 0 9 =
           Some (Inr (Some (?l2\<lparr>address := 9, filenameId := 8\<rparr>)))"
    using getLocationForAddress_last_location [OF h1 h2 h3 h4 h5 h7]
    by (simp add: getFilenameForAddress_def)
  show ?thesis using h2 h3 a b by simp
qed

section \<open>The address of a location\<close>

text \<open>
  The description of \<open>getAddressForLocation\<close> in the words of the specification.
  \<open>fileRange\<close> is the range of debug offsets of a file: the first region with the
  filename gives the start, the region after it (or \<open>lexicalDataOffset\<close>, if it is the
  last) the end. \<open>functionsAt buf off end' fs\<close> says that deserializers constructed
  one after the other from \<open>off\<close>, as long as the offset is below \<open>end'\<close>, read the
  functions \<open>fs\<close>, each with its function index and the records \<open>next()\<close> returns.
  \<open>matches\<close> is the comparison with the target, and \<open>firstMatch\<close> the first record in
  the order of the stream that matches; the header locations are not among the
  candidates.
\<close>

fun fileRange :: "DebugFileRegion list \<Rightarrow> nat \<Rightarrow> u32 \<Rightarrow> (nat \<times> nat) option" where
  "fileRange [] lexOff fileId = None"
| "fileRange (r # rs) lexOff fileId =
     (if DebugFileRegion.filenameId r = fileId
      then Some (fromAddress r, case rs of [] \<Rightarrow> lexOff | r' # rs' \<Rightarrow> fromAddress r')
      else fileRange rs lexOff fileId)"

fun functionsAt ::
  "u8 list \<Rightarrow> nat \<Rightarrow> nat \<Rightarrow> (u32 \<times> (nat \<times> DebugSourceLocation) list) list \<Rightarrow> bool" where
  "functionsAt buf off end' [] = (\<not> off < end')"
| "functionsAt buf off end' ((fi, recs) # fs) =
     (off < end' \<and>
      (case newDeserializer buf off of
         Inl e \<Rightarrow> False
       | Inr fd \<Rightarrow>
           functionIndex fd = fi \<and>
           (case walk fd recs of
              None \<Rightarrow> False
            | Some fdEnd \<Rightarrow> functionsAt buf (offset fdEnd) end' fs)))"

definition matches :: "u32 \<Rightarrow> u32 option \<Rightarrow> DebugSourceLocation \<Rightarrow> bool" where
  "matches targetLine targetColumn loc \<longleftrightarrow>
     line loc = targetLine \<and> (targetColumn = None \<or> Some (column loc) = targetColumn)"

definition candidates ::
  "(u32 \<times> (nat \<times> DebugSourceLocation) list) list \<Rightarrow> (u32 \<times> DebugSourceLocation) list" where
  "candidates fs = concat (map (\<lambda>(fi, recs). map (\<lambda>(off, loc). (fi, loc)) recs) fs)"

definition firstMatch ::
  "u32 \<Rightarrow> u32 option \<Rightarrow> (u32 \<times> (nat \<times> DebugSourceLocation) list) list \<Rightarrow>
   DebugSearchResult option" where
  "firstMatch targetLine targetColumn fs =
     (case find (\<lambda>(fi, loc). matches targetLine targetColumn loc) (candidates fs) of
        None \<Rightarrow> None
      | Some (fi, loc) \<Rightarrow> Some (DebugSearchResult fi (address loc) (line loc) (column loc)))"

lemma find_app:
  "find P (xs @ ys) = (case find P xs of None \<Rightarrow> find P ys | Some x \<Rightarrow> Some x)"
  by (induction xs) simp_all

lemma rangeLoop_found:
  "rangeLoop fileId lexOff rs (True, s, e) =
     (True, s, case rs of [] \<Rightarrow> e | r' # rs' \<Rightarrow> fromAddress r')"
  by (cases rs) simp_all

lemma rangeLoop_fileRange:
  "rangeLoop fileId lexOff rs (False, s, e) =
     (case fileRange rs lexOff fileId of None \<Rightarrow> (False, s, e) | Some (a, b) \<Rightarrow> (True, a, b))"
  by (induction rs arbitrary: s e) (simp_all add: rangeLoop_found)

lemma decode1Int_keeps:
  "decode1Int fd = Inr (v, fd') \<Longrightarrow>
   functionIndex fd' = functionIndex fd \<and> data fd' = data fd \<and> current fd' = current fd"
  by (auto simp: decode1Int_def split: option.splits)

lemma next'_functionIndex:
  assumes "next' fd = Inr (x, fd')"
  shows "functionIndex fd' = functionIndex fd"
proof -
  obtain a fd1 where d1: "decode1Int fd = Inr (a, fd1)"
    using assms by (auto simp: next'_def bindE_def split: sum.splits)
  note k1 = decode1Int_keeps [OF d1]
  show ?thesis
  proof (cases "a = - 1")
    case True
    then show ?thesis using assms k1 by (simp add: next'_def bindE_def d1)
  next
    case False
    then obtain l fd2 where d2: "decode1Int fd1 = Inr (l, fd2)"
      using assms by (auto simp: next'_def bindE_def d1 split: sum.splits)
    then obtain c fd3 where d3: "decode1Int fd2 = Inr (c, fd3)"
      using assms False by (auto simp: next'_def bindE_def d1 split: sum.splits)
    then obtain s fd4 where
      d4: "(if l AND 1 \<noteq> 0 then decode1Int fd3 else Inr (0, fd3)) = Inr (s, fd4)"
      using assms False d2 by (auto simp: next'_def bindE_def d1 split: sum.splits)
    have k4: "functionIndex fd4 = functionIndex fd3"
      using d4 decode1Int_keeps by (auto split: if_splits)
    have "functionIndex fd' = functionIndex fd4"
      using assms False by (auto simp: next'_def bindE_def d1 d2 d3 d4 Let_def)
    then show ?thesis
      using k1 k4 decode1Int_keeps [OF d2] decode1Int_keeps [OF d3] by simp
  qed
qed

lemma searchFunction_none:
  assumes "walk fd recs = Some fdEnd"
    and "\<forall>r \<in> set recs. \<not> matches tln tcol (snd r)"
  shows "searchFunction tln tcol fd = Some (Inr (None, fdEnd))"
  using assms
proof (induction recs arbitrary: fd)
  case Nil
  then have "next' fd = Inr (None, fdEnd)"
    by (auto split: sum.splits option.splits prod.splits)
  then show ?case by (subst searchFunction.simps) simp
next
  case (Cons r rs)
  obtain off l where r: "r = (off, l)" by (cases r)
  from Cons.prems(1) obtain fd1 where
    n: "next' fd = Inr (Some l, fd1)" and w: "walk fd1 rs = Some fdEnd"
    unfolding r by (auto split: sum.splits option.splits prod.splits if_splits)
  have nm: "\<not> matches tln tcol l"
    using Cons.prems(2) by (simp add: r)
  have "searchFunction tln tcol fd = searchFunction tln tcol fd1"
    by (subst searchFunction.simps) (simp add: n matches_def [symmetric] nm)
  then show ?case using Cons.IH [OF w] Cons.prems(2) by simp
qed

lemma searchFunction_some:
  assumes "walk fd recs = Some fdEnd"
    and "find (\<lambda>r. matches tln tcol (snd r)) recs = Some (off, loc)"
  shows "\<exists>fd'. searchFunction tln tcol fd =
           Some (Inr (Some (DebugSearchResult (functionIndex fd) (address loc) (line loc)
                              (column loc)), fd'))"
  using assms
proof (induction recs arbitrary: fd)
  case Nil
  then show ?case by simp
next
  case (Cons r rs)
  obtain ro l where r: "r = (ro, l)" by (cases r)
  from Cons.prems(1) obtain fd1 where
    n: "next' fd = Inr (Some l, fd1)" and w: "walk fd1 rs = Some fdEnd"
    unfolding r by (auto split: sum.splits option.splits prod.splits if_splits)
  have fi: "functionIndex fd1 = functionIndex fd"
    using next'_functionIndex [OF n] .
  show ?case
  proof (cases "matches tln tcol l")
    case True
    then have "loc = l" using Cons.prems(2) by (simp add: r)
    then show ?thesis
      by (subst searchFunction.simps) (simp add: n fi matches_def [symmetric] True)
  next
    case False
    have f: "find (\<lambda>r. matches tln tcol (snd r)) rs = Some (off, loc)"
      using Cons.prems(2) False by (simp add: r)
    have "searchFunction tln tcol fd = searchFunction tln tcol fd1"
      by (subst searchFunction.simps) (simp add: n matches_def [symmetric] False)
    then show ?thesis using Cons.IH [OF w f] fi by simp
  qed
qed

lemma searchFunctions_functionsAt:
  assumes "functionsAt buf off end' fs"
  shows "searchFunctions buf tln tcol end' off = Some (Inr (firstMatch tln tcol fs))"
  using assms
proof (induction fs arbitrary: off)
  case Nil
  then show ?case
    by (subst searchFunctions.simps) (simp add: firstMatch_def candidates_def)
next
  case (Cons f fs)
  obtain fi recs where f: "f = (fi, recs)" by (cases f)
  from Cons.prems obtain fd fdEnd where
    lt: "off < end'" and nd: "newDeserializer buf off = Inr fd" and fi: "functionIndex fd = fi"
    and w: "walk fd recs = Some fdEnd" and rest: "functionsAt buf (offset fdEnd) end' fs"
    unfolding f by (auto split: sum.splits option.splits)
  have cand: "candidates (f # fs) = map (\<lambda>(off, loc). (fi, loc)) recs @ candidates fs"
    by (simp add: candidates_def f)
  have fnd: "find (\<lambda>(fi, loc). matches tln tcol loc) (map (\<lambda>(off, loc). (fi, loc)) recs) =
             map_option (\<lambda>(off, loc). (fi, loc)) (find (\<lambda>r. matches tln tcol (snd r)) recs)"
    by (induction recs) (auto split: prod.splits)
  show ?case
  proof (cases "find (\<lambda>r. matches tln tcol (snd r)) recs")
    case None
    then have no: "\<forall>r \<in> set recs. \<not> matches tln tcol (snd r)"
      by (auto simp: find_None_iff)
    have s: "searchFunction tln tcol fd = Some (Inr (None, fdEnd))"
      using searchFunction_none [OF w no] .
    have "searchFunctions buf tln tcol end' off = searchFunctions buf tln tcol end' (offset fdEnd)"
      by (subst searchFunctions.simps) (simp add: lt nd s)
    moreover have "firstMatch tln tcol (f # fs) = firstMatch tln tcol fs"
      by (simp add: firstMatch_def cand find_app fnd None)
    ultimately show ?thesis using Cons.IH [OF rest] by simp
  next
    case (Some r)
    obtain ro loc where r: "r = (ro, loc)" by (cases r)
    from searchFunction_some [OF w Some [unfolded r]] obtain fd' where
      s: "searchFunction tln tcol fd =
          Some (Inr (Some (DebugSearchResult (functionIndex fd) (address loc) (line loc)
                             (column loc)), fd'))"
      by blast
    have "searchFunctions buf tln tcol end' off =
          Some (Inr (Some (DebugSearchResult fi (address loc) (line loc) (column loc))))"
      by (subst searchFunctions.simps) (simp add: lt nd s fi)
    moreover have "firstMatch tln tcol (f # fs) =
                   Some (DebugSearchResult fi (address loc) (line loc) (column loc))"
      by (simp add: firstMatch_def cand find_app fnd Some r)
    ultimately show ?thesis by simp
  qed
qed

text \<open>
  Where the functions in the range of the file decode one after the other from its
  start, the three loops compute what the specification describes: none when no file
  region has the filename; otherwise, with \<open>start\<close> and \<open>end'\<close> the range of the
  first region that has it, the first location returned by \<open>next()\<close> whose line is the
  target line and, if a target column is given, whose column is the target column,
  together with the index of its function, and none if no such location matches. Header
  locations are not compared.
\<close>

lemma getAddressForLocation_decodable_range:
  "(fileRange (info_files d) (lexicalDataOffset d) fileId = None \<longrightarrow>
      getAddressForLocation d fileId tln tcol = Some (Inr None)) \<and>
   (\<forall>start end' fs.
      fileRange (info_files d) (lexicalDataOffset d) fileId = Some (start, end') \<and>
      functionsAt (info_data d) start end' fs \<longrightarrow>
      getAddressForLocation d fileId tln tcol = Some (Inr (firstMatch tln tcol fs)) \<and>
      (firstMatch tln tcol fs = None \<longleftrightarrow>
         (\<forall>c \<in> set (candidates fs). \<not> matches tln tcol (snd c))))"
proof -
  have a: "getAddressForLocation d fileId tln tcol = Some (Inr None)"
    if "fileRange (info_files d) (lexicalDataOffset d) fileId = None"
    using that by (simp add: getAddressForLocation_def rangeLoop_fileRange)
  have b: "getAddressForLocation d fileId tln tcol = Some (Inr (firstMatch tln tcol fs))"
    if "fileRange (info_files d) (lexicalDataOffset d) fileId = Some (start, end')"
      and "functionsAt (info_data d) start end' fs" for start end' fs
    using that(1) searchFunctions_functionsAt [OF that(2)]
    by (simp add: getAddressForLocation_def rangeLoop_fileRange)
  have c: "firstMatch tln tcol fs = None \<longleftrightarrow>
           (\<forall>c \<in> set (candidates fs). \<not> matches tln tcol (snd c))" for fs
  proof -
    have "firstMatch tln tcol fs = None \<longleftrightarrow>
          find (\<lambda>(fi, loc). matches tln tcol loc) (candidates fs) = None"
      by (simp add: firstMatch_def split: option.splits prod.splits)
    also have "\<dots> \<longleftrightarrow> (\<forall>c \<in> set (candidates fs). \<not> matches tln tcol (snd c))"
      by (auto simp: find_None_iff)
    finally show ?thesis .
  qed
  show ?thesis using a b c by blast
qed

lemma getAddressForLocation_decodable_range_example:
  "fileRange [\<lparr>fromAddress = 0, filenameId = 7, sourceMappingUrlId = 0\<rparr>] 15 7 = Some (0, 15) \<and>
   fileRange [\<lparr>fromAddress = 0, filenameId = 7, sourceMappingUrlId = 0\<rparr>] 15 9 = None \<and>
   functionsAt [0, 10, 5, 3, 1, 4, 1, 0x7F, 1, 20, 1, 2, 2, 0, 0x7F, 0x7F, 0] 0 15
     [(0, [(3, \<lparr>address = 3, filenameId = 0, sourceMappingUrlId = 0, line = 10, column = 9,
                statement = 1\<rparr>)]),
      (1, [(11, \<lparr>address = 2, filenameId = 0, sourceMappingUrlId = 0, line = 21, column = 1,
                 statement = 0\<rparr>)])] \<and>
   getAddressForLocation
     \<lparr>info_files = [\<lparr>fromAddress = 0, filenameId = 7, sourceMappingUrlId = 0\<rparr>],
      lexicalDataOffset = 15,
      info_data = [0, 10, 5, 3, 1, 4, 1, 0x7F, 1, 20, 1, 2, 2, 0, 0x7F, 0x7F, 0]\<rparr>
     7 10 (Some 9) = Some (Inr (Some (DebugSearchResult 0 3 10 9))) \<and>
   getAddressForLocation
     \<lparr>info_files = [\<lparr>fromAddress = 0, filenameId = 7, sourceMappingUrlId = 0\<rparr>],
      lexicalDataOffset = 15,
      info_data = [0, 10, 5, 3, 1, 4, 1, 0x7F, 1, 20, 1, 2, 2, 0, 0x7F, 0x7F, 0]\<rparr>
     7 21 None = Some (Inr (Some (DebugSearchResult 1 2 21 1))) \<and>
   getAddressForLocation
     \<lparr>info_files = [\<lparr>fromAddress = 0, filenameId = 7, sourceMappingUrlId = 0\<rparr>],
      lexicalDataOffset = 15,
      info_data = [0, 10, 5, 3, 1, 4, 1, 0x7F, 1, 20, 1, 2, 2, 0, 0x7F, 0x7F, 0]\<rparr>
     7 10 (Some 5) = Some (Inr None) \<and>
   getAddressForLocation
     \<lparr>info_files = [\<lparr>fromAddress = 0, filenameId = 7, sourceMappingUrlId = 0\<rparr>],
      lexicalDataOffset = 15,
      info_data = [0, 10, 5, 3, 1, 4, 1, 0x7F, 1, 20, 1, 2, 2, 0, 0x7F, 0x7F, 0]\<rparr>
     9 10 None = Some (Inr None)"
proof -
  let ?buf = "[0, 10, 5, 3, 1, 4, 1, 0x7F, 1, 20, 1, 2, 2, 0, 0x7F, 0x7F, 0 :: u8]"
  let ?l1 = "\<lparr>address = 3, filenameId = 0, sourceMappingUrlId = 0, line = 10, column = 9,
              statement = 1 :: u32\<rparr>"
  let ?l2 = "\<lparr>address = 2, filenameId = 0, sourceMappingUrlId = 0, line = 21, column = 1,
              statement = 0 :: u32\<rparr>"
  let ?fs = "[(0 :: u32, [(3 :: nat, ?l1)]), (1, [(11, ?l2)])]"
  let ?d = "\<lparr>info_files = [\<lparr>fromAddress = 0, filenameId = 7, sourceMappingUrlId = 0\<rparr>],
             lexicalDataOffset = 15, info_data = ?buf\<rparr>"
  have r7: "fileRange (info_files ?d) (lexicalDataOffset ?d) 7 = Some (0, 15)" by simp
  have r9: "fileRange (info_files ?d) (lexicalDataOffset ?d) 9 = None" by simp
  have fa: "functionsAt (info_data ?d) 0 15 ?fs"
    by (simp add: newDeserializer_def next'_def decode1Int_def readSignedLEB128_def bindE_def
        Let_def defaultLocation_def)
  have q1: "getAddressForLocation ?d 7 10 (Some 9) = Some (Inr (firstMatch 10 (Some 9) ?fs))"
    using getAddressForLocation_decodable_range [of ?d 7 10 "Some 9"] r7 fa by blast
  have q2: "getAddressForLocation ?d 7 21 None = Some (Inr (firstMatch 21 None ?fs))"
    using getAddressForLocation_decodable_range [of ?d 7 21 None] r7 fa by blast
  have q3: "getAddressForLocation ?d 7 10 (Some 5) = Some (Inr (firstMatch 10 (Some 5) ?fs))"
    using getAddressForLocation_decodable_range [of ?d 7 10 "Some 5"] r7 fa by blast
  have q4: "getAddressForLocation ?d 9 10 None = Some (Inr None)"
    using getAddressForLocation_decodable_range [of ?d 9 10 None] r9 by blast
  have f1: "firstMatch 10 (Some 9) ?fs = Some (DebugSearchResult 0 3 10 9)"
    by (simp add: firstMatch_def candidates_def matches_def)
  have f2: "firstMatch 21 None ?fs = Some (DebugSearchResult 1 2 21 1)"
    by (simp add: firstMatch_def candidates_def matches_def)
  have f3: "firstMatch 10 (Some 5) ?fs = None"
    by (simp add: firstMatch_def candidates_def matches_def)
  show ?thesis
    using r7 r9 fa q1 q2 q3 q4 by (simp add: f1 f2 f3)
qed

text \<open>
  C3. The code does what the claim says where the range of the file begins at a function
  header, but not on every debug info the generator produces. A change of filename
  inside a function appends a region that begins at a record: for the function with the
  header (line 1, column 1, file 1) and the one location (address 1, line 1, column 1,
  statement 1, file 2), the region of file 2 begins at byte 3. \<open>getAddressForLocation\<close>
  for file 2 constructs a deserializer at byte 3. It takes the integers 1, 1, 0 of the
  record for a function index, a line and a column, and then decodes the rest of the
  record, the terminator and the two lexical bytes as a location (address 1, line 0,
  column \<open>2 ^ 32 - 1\<close>). For the target line 1 the search goes on and reads past the
  end of the blob; for the target line 0 it returns that location with the function
  index 1, which is no location of any function. By the claim the candidates are the
  locations \<open>next()\<close> returns for the functions of the range, and the result is the
  first match among them or none.
\<close>

theorem getAddressForLocation_mid_function_region:
  "generate
     [AppendSourceLocations
        \<lparr>address = 0, filenameId = 1, sourceMappingUrlId = 0, line = 1, column = 1,
         statement = 0\<rparr> 0
        [\<lparr>address = 1, filenameId = 2, sourceMappingUrlId = 0, line = 1, column = 1,
          statement = 1\<rparr>]] =
   Inr \<lparr>validData = True, sourcesData = [0, 1, 1, 1, 1, 0, 1, 0x7F],
        lexicalData = [0x7F, 0],
        files = [\<lparr>fromAddress = 0, filenameId = 1, sourceMappingUrlId = 0\<rparr>,
                 \<lparr>fromAddress = 3, filenameId = 2, sourceMappingUrlId = 0\<rparr>]\<rparr> \<and>
   serializeWithMove
     \<lparr>validData = True, sourcesData = [0, 1, 1, 1, 1, 0, 1, 0x7F],
      lexicalData = [0x7F, 0],
      files = [\<lparr>fromAddress = 0, filenameId = 1, sourceMappingUrlId = 0\<rparr>,
               \<lparr>fromAddress = 3, filenameId = 2, sourceMappingUrlId = 0\<rparr>]\<rparr> =
   Inr (\<lparr>info_files = [\<lparr>fromAddress = 0, filenameId = 1, sourceMappingUrlId = 0\<rparr>,
                         \<lparr>fromAddress = 3, filenameId = 2, sourceMappingUrlId = 0\<rparr>],
          lexicalDataOffset = 8,
          info_data = [0, 1, 1, 1, 1, 0, 1, 0x7F, 0x7F, 0]\<rparr>,
        \<lparr>validData = False, sourcesData = [], lexicalData = [0x7F, 0], files = []\<rparr>) \<and>
   newDeserializer [0, 1, 1, 1, 1, 0, 1, 0x7F, 0x7F, 0] 3 =
     Inr \<lparr>data = [0, 1, 1, 1, 1, 0, 1, 0x7F, 0x7F, 0], offset = 6, functionIndex = 1,
          current = \<lparr>address = 0, filenameId = 0, sourceMappingUrlId = 0, line = 1,
                      column = 0, statement = 0\<rparr>\<rparr> \<and>
   getAddressForLocation
     \<lparr>info_files = [\<lparr>fromAddress = 0, filenameId = 1, sourceMappingUrlId = 0\<rparr>,
                     \<lparr>fromAddress = 3, filenameId = 2, sourceMappingUrlId = 0\<rparr>],
      lexicalDataOffset = 8,
      info_data = [0, 1, 1, 1, 1, 0, 1, 0x7F, 0x7F, 0]\<rparr> 2 1 None =
     Some (Inl ReadPastEnd) \<and>
   getAddressForLocation
     \<lparr>info_files = [\<lparr>fromAddress = 0, filenameId = 1, sourceMappingUrlId = 0\<rparr>,
                     \<lparr>fromAddress = 3, filenameId = 2, sourceMappingUrlId = 0\<rparr>],
      lexicalDataOffset = 8,
      info_data = [0, 1, 1, 1, 1, 0, 1, 0x7F, 0x7F, 0]\<rparr> 2 0 None =
     Some (Inr (Some (DebugSearchResult 1 1 0 0xFFFFFFFF)))"
proof -
  let ?buf = "[0, 1, 1, 1, 1, 0, 1, 0x7F, 0x7F, 0 :: u8]"
  let ?fd = "\<lparr>data = ?buf, offset = 6, functionIndex = 1,
              current = \<lparr>address = 0, filenameId = 0, sourceMappingUrlId = 0, line = 1,
                          column = 0, statement = (0 :: u32)\<rparr>\<rparr>"
  let ?bogus = "\<lparr>address = 1, filenameId = 0, sourceMappingUrlId = 0, line = 0,
                 column = 0xFFFFFFFF, statement = (0 :: u32)\<rparr>"
  let ?fd' = "\<lparr>data = ?buf, offset = 10, functionIndex = 1, current = ?bogus\<rparr>"
  have gen: "generate
     [AppendSourceLocations
        \<lparr>address = 0, filenameId = 1, sourceMappingUrlId = 0, line = 1, column = 1,
         statement = 0\<rparr> 0
        [\<lparr>address = 1, filenameId = 2, sourceMappingUrlId = 0, line = 1, column = 1,
          statement = 1\<rparr>]] =
   Inr \<lparr>validData = True, sourcesData = [0, 1, 1, 1, 1, 0, 1, 0x7F],
        lexicalData = [0x7F, 0],
        files = [\<lparr>fromAddress = 0, filenameId = 1, sourceMappingUrlId = 0\<rparr>,
                 \<lparr>fromAddress = 3, filenameId = 2, sourceMappingUrlId = 0\<rparr>]\<rparr>"
    by (simp add: generate_runCalls appendSourceLocations_def appendLocation_def delta_def
        bindE_def Let_def appendSignedLEB128_def encodeSLEB_small)
  have ser: "serializeWithMove
     \<lparr>validData = True, sourcesData = [0, 1, 1, 1, 1, 0, 1, 0x7F],
      lexicalData = [0x7F, 0],
      files = [\<lparr>fromAddress = 0, filenameId = 1, sourceMappingUrlId = 0\<rparr>,
               \<lparr>fromAddress = 3, filenameId = 2, sourceMappingUrlId = 0\<rparr>]\<rparr> =
   Inr (\<lparr>info_files = [\<lparr>fromAddress = 0, filenameId = 1, sourceMappingUrlId = 0\<rparr>,
                         \<lparr>fromAddress = 3, filenameId = 2, sourceMappingUrlId = 0\<rparr>],
          lexicalDataOffset = 8, info_data = ?buf\<rparr>,
        \<lparr>validData = False, sourcesData = [], lexicalData = [0x7F, 0], files = []\<rparr>)"
    by (simp add: serializeWithMove_def Let_def)
  have hdr: "newDeserializer ?buf 3 = Inr ?fd"
    by (simp add: newDeserializer_def decode1Int_def readSignedLEB128_def bindE_def
        defaultLocation_def)
  have n1: "next' ?fd = Inr (Some ?bogus, ?fd')"
    by (simp add: next'_def decode1Int_def readSignedLEB128_def bindE_def Let_def)
  have n2: "next' ?fd' = Inl ReadPastEnd"
    by (simp add: next'_def decode1Int_def readSignedLEB128_def bindE_def)
  have s1: "searchFunction 1 None ?fd = Some (Inl ReadPastEnd)"
    by (subst searchFunction.simps, simp add: n1, subst searchFunction.simps, simp add: n2)
  have s0: "searchFunction 0 None ?fd =
            Some (Inr (Some (DebugSearchResult 1 1 0 0xFFFFFFFF), ?fd'))"
    by (subst searchFunction.simps) (simp add: n1)
  have q1: "searchFunctions ?buf 1 None 8 3 = Some (Inl ReadPastEnd)"
    by (subst searchFunctions.simps) (simp add: hdr s1)
  have q0: "searchFunctions ?buf 0 None 8 3 =
            Some (Inr (Some (DebugSearchResult 1 1 0 0xFFFFFFFF)))"
    by (subst searchFunctions.simps) (simp add: hdr s0)
  show ?thesis
    unfolding gen ser hdr
    by (simp add: getAddressForLocation_def q1 q0)
qed

end
